theory Spec2Isabelle
  imports Complex_Main "HOL-Library.Char_ord" "HOL-Library.List_Lexorder" "HOL-Library.AList"
    "HOL-Library.Log_Nat"
begin

section \<open>Python strings\<close>

text \<open>
  A Python \<open>str\<close> is modelled as a \<open>string\<close> whose characters are the code points
  0 to 255.  The character classes below are the ones CPython uses on that range, for
  \<open>str.strip\<close>, \<open>str.split\<close>, \<open>str.splitlines\<close>, \<open>str.lower\<close> and for the classes
  \<open>\s\<close>, \<open>\d\<close>, \<open>\w\<close> of the \<open>re\<close> module on \<open>str\<close> patterns.
\<close>

definition isspace :: "char \<Rightarrow> bool" where
  "isspace c = (c \<in> set [CHR 0x09, CHR 0x0A, CHR 0x0B, CHR 0x0C, CHR 0x0D,
                          CHR 0x1C, CHR 0x1D, CHR 0x1E, CHR 0x1F, CHR 0x20,
                          CHR 0x85, CHR 0xA0])"

definition isdigit :: "char \<Rightarrow> bool" where
  "isdigit c = (CHR ''0'' \<le> c \<and> c \<le> CHR ''9'')"

definition is_upper_az :: "char \<Rightarrow> bool" where
  "is_upper_az c = (CHR ''A'' \<le> c \<and> c \<le> CHR ''Z'')"

definition is_lower_az :: "char \<Rightarrow> bool" where
  "is_lower_az c = (CHR ''a'' \<le> c \<and> c \<le> CHR ''z'')"

definition is_az :: "char \<Rightarrow> bool" where
  "is_az c = (is_upper_az c \<or> is_lower_az c)"

definition is_word :: "char \<Rightarrow> bool" where
  \<comment> \<open>\<open>\w\<close>: alphanumeric (\<open>str.isalnum\<close>) or underscore\<close>
  "is_word c = (is_az c \<or> isdigit c \<or> c = CHR ''_''
      \<or> c \<in> set [CHR 0xAA, CHR 0xB2, CHR 0xB3, CHR 0xB5, CHR 0xB9, CHR 0xBA,
                   CHR 0xBC, CHR 0xBD, CHR 0xBE]
      \<or> (CHR 0xC0 \<le> c \<and> c \<noteq> CHR 0xD7 \<and> c \<noteq> CHR 0xF7))"

definition is_linebreak :: "char \<Rightarrow> bool" where
  \<comment> \<open>the line boundaries of \<open>str.splitlines\<close> other than carriage return\<close>
  "is_linebreak c = (c \<in> set [CHR 0x0A, CHR 0x0B, CHR 0x0C, CHR 0x1C, CHR 0x1D, CHR 0x1E,
                              CHR 0x85])"

definition lower_char :: "char \<Rightarrow> char" where
  "lower_char c =
     (if is_upper_az c \<or> (CHR 0xC0 \<le> c \<and> c \<le> CHR 0xDE \<and> c \<noteq> CHR 0xD7)
      then char_of (of_char c + (32::nat)) else c)"

definition py_lower :: "string \<Rightarrow> string" where
  "py_lower s = map lower_char s"

definition py_strip :: "string \<Rightarrow> string" where
  "py_strip s = rev (dropWhile isspace (rev (dropWhile isspace s)))"

definition py_replace_char :: "char \<Rightarrow> char \<Rightarrow> string \<Rightarrow> string" where
  \<comment> \<open>\<open>s.replace(old, new)\<close> for one-character \<open>old\<close> and \<open>new\<close>\<close>
  "py_replace_char old new s = map (\<lambda>c. if c = old then new else c) s"

fun splitlines_go :: "bool \<Rightarrow> string \<Rightarrow> string \<Rightarrow> string list" where
  "splitlines_go after_cr [] acc = (if acc = [] then [] else [rev acc])"
| "splitlines_go after_cr (c # cs) acc =
     (if after_cr \<and> c = CHR 0x0A then splitlines_go False cs acc
      else if c = CHR 0x0D then rev acc # splitlines_go True cs []
      else if is_linebreak c then rev acc # splitlines_go False cs []
      else splitlines_go False cs (c # acc))"

definition py_splitlines :: "string \<Rightarrow> string list" where
  "py_splitlines s = splitlines_go False s []"

fun split_ws_go :: "string \<Rightarrow> string \<Rightarrow> string list" where
  "split_ws_go [] acc = (if acc = [] then [] else [rev acc])"
| "split_ws_go (c # cs) acc =
     (if isspace c then (if acc = [] then split_ws_go cs [] else rev acc # split_ws_go cs [])
      else split_ws_go cs (c # acc))"

definition py_split_ws :: "string \<Rightarrow> string list" where
  \<comment> \<open>\<open>s.split()\<close>: the maximal runs of non-whitespace\<close>
  "py_split_ws s = split_ws_go s []"

fun py_contains :: "string \<Rightarrow> string \<Rightarrow> bool" where
  \<comment> \<open>\<open>k in s\<close> for strings\<close>
  "py_contains k [] = (k = [])"
| "py_contains k (c # cs) = (take (length k) (c # cs) = k \<or> py_contains k cs)"

fun py_join :: "string \<Rightarrow> string list \<Rightarrow> string" where
  "py_join sep [] = []"
| "py_join sep [x] = x"
| "py_join sep (x # y # ys) = x @ sep @ py_join sep (y # ys)"

section \<open>The fragment of Python's \<open>re\<close> the program uses\<close>

text \<open>
  A backtracking matcher: every construct lists its ways to match in the order in which
  \<open>re\<close> tries them (alternatives left to right, greedy quantifiers longest first), so
  the head of the list is the match \<open>re\<close> reports.  A matcher state is the character
  before the current position (for \<open>\b\<close>) and the text that remains.
\<close>

datatype rx =
    Cls "char \<Rightarrow> bool" nat "nat option"
      \<comment> \<open>a one-character class under a greedy quantifier \<open>{m,n}\<close>; \<open>None\<close>: no upper bound\<close>
  | Seq rx rx
  | Alt rx rx
  | Opt rx
  | WordB

type_synonym mstate = "char option \<times> string"

fun cls_rep :: "(char \<Rightarrow> bool) \<Rightarrow> nat \<Rightarrow> nat option \<Rightarrow> char option \<Rightarrow> string \<Rightarrow> mstate list" where
  "cls_rep P m n p [] = (if m = 0 then [(p, [])] else [])"
| "cls_rep P m n p (c # cs) =
     (if P c \<and> n \<noteq> Some 0
      then cls_rep P (m - 1) (map_option (\<lambda>k. k - 1) n) (Some c) cs else [])
     @ (if m = 0 then [(p, c # cs)] else [])"

definition at_word_boundary :: "char option \<Rightarrow> string \<Rightarrow> bool" where
  "at_word_boundary p s =
     ((case p of None \<Rightarrow> False | Some c \<Rightarrow> is_word c)
        \<noteq> (case s of [] \<Rightarrow> False | c # _ \<Rightarrow> is_word c))"

fun rmatch :: "rx \<Rightarrow> char option \<Rightarrow> string \<Rightarrow> mstate list" where
  "rmatch (Cls P m n) p s = cls_rep P m n p s"
| "rmatch (Seq a b) p s = concat (map (\<lambda>(p', s'). rmatch b p' s') (rmatch a p s))"
| "rmatch (Alt a b) p s = rmatch a p s @ rmatch b p s"
| "rmatch (Opt a) p s = rmatch a p s @ [(p, s)]"
| "rmatch WordB p s = (if at_word_boundary p s then [(p, s)] else [])"

definition first_match :: "rx \<Rightarrow> char option \<Rightarrow> string \<Rightarrow> mstate option" where
  "first_match r p s = (case rmatch r p s of [] \<Rightarrow> None | x # _ \<Rightarrow> Some x)"

definition matched_text :: "string \<Rightarrow> mstate \<Rightarrow> string" where
  "matched_text s st = take (length s - length (snd st)) s"

fun search_from :: "rx \<Rightarrow> char option \<Rightarrow> string \<Rightarrow> string option" where
  "search_from r p [] = map_option (matched_text []) (first_match r p [])"
| "search_from r p (c # cs) =
     (case first_match r p (c # cs) of
        Some st \<Rightarrow> Some (matched_text (c # cs) st)
      | None \<Rightarrow> search_from r (Some c) cs)"

definition re_search :: "rx \<Rightarrow> string \<Rightarrow> string option" where
  \<comment> \<open>\<open>re.search(r, s)\<close>: \<open>group(0)\<close> of the leftmost match, \<open>None\<close> when there is none\<close>
  "re_search r s = search_from r None s"

definition re_match :: "rx \<Rightarrow> string \<Rightarrow> string option" where
  \<comment> \<open>\<open>re.match(r, s)\<close>: a match at the start of the text only\<close>
  "re_match r s = map_option (matched_text s) (first_match r None s)"

text \<open>
  \<open>re.sub\<close>, \<open>re.findall\<close> and \<open>re.split\<close> scan the text from the left for successive
  matches.  Every pattern the program passes to them consumes at least one character;
  a match of the empty string is treated here as no match at that position.
\<close>

function re_sub_go :: "rx \<Rightarrow> string \<Rightarrow> char option \<Rightarrow> string \<Rightarrow> string" where
  "re_sub_go r repl p [] = []"
| "re_sub_go r repl p (c # cs) =
     (case first_match r p (c # cs) of
        Some (p', s') \<Rightarrow>
          if length s' < length (c # cs) then repl @ re_sub_go r repl p' s'
          else c # re_sub_go r repl (Some c) cs
      | None \<Rightarrow> c # re_sub_go r repl (Some c) cs)"
  by pat_completeness auto
termination
  by (relation "measure (\<lambda>(r, repl, p, s). length s)") auto

definition re_sub :: "rx \<Rightarrow> string \<Rightarrow> string \<Rightarrow> string" where
  "re_sub r repl s = re_sub_go r repl None s"

function re_findall_go :: "rx \<Rightarrow> char option \<Rightarrow> string \<Rightarrow> string list" where
  "re_findall_go r p [] = []"
| "re_findall_go r p (c # cs) =
     (case first_match r p (c # cs) of
        Some (p', s') \<Rightarrow>
          if length s' < length (c # cs)
          then matched_text (c # cs) (p', s') # re_findall_go r p' s'
          else re_findall_go r (Some c) cs
      | None \<Rightarrow> re_findall_go r (Some c) cs)"
  by pat_completeness auto
termination
  by (relation "measure (\<lambda>(r, p, s). length s)") auto

definition re_findall :: "rx \<Rightarrow> string \<Rightarrow> string list" where
  "re_findall r s = re_findall_go r None s"

function re_split_go :: "rx \<Rightarrow> char option \<Rightarrow> string \<Rightarrow> string \<Rightarrow> string list" where
  "re_split_go r p [] acc = [rev acc]"
| "re_split_go r p (c # cs) acc =
     (case first_match r p (c # cs) of
        Some (p', s') \<Rightarrow>
          if length s' < length (c # cs) then rev acc # re_split_go r p' s' []
          else re_split_go r (Some c) cs (c # acc)
      | None \<Rightarrow> re_split_go r (Some c) cs (c # acc))"
  by pat_completeness auto
termination
  by (relation "measure (\<lambda>(r, p, s, acc). length s)") auto

definition re_split :: "rx \<Rightarrow> string \<Rightarrow> string list" where
  "re_split r s = re_split_go r None s []"

text \<open>Pattern constructors.\<close>

definition one_of :: "(char \<Rightarrow> bool) \<Rightarrow> rx" where
  "one_of P = Cls P 1 (Some 1)"

definition opt_of :: "(char \<Rightarrow> bool) \<Rightarrow> rx" where
  "opt_of P = Cls P 0 (Some 1)"

definition star_of :: "(char \<Rightarrow> bool) \<Rightarrow> rx" where
  "star_of P = Cls P 0 None"

definition plus_of :: "(char \<Rightarrow> bool) \<Rightarrow> rx" where
  "plus_of P = Cls P 1 None"

definition rep_of :: "(char \<Rightarrow> bool) \<Rightarrow> nat \<Rightarrow> nat \<Rightarrow> rx" where
  "rep_of P m n = Cls P m (Some n)"

fun seqs :: "rx list \<Rightarrow> rx" where
  "seqs [] = Cls (\<lambda>_. False) 0 (Some 0)"
| "seqs [r] = r"
| "seqs (r # rs) = Seq r (seqs rs)"

definition lit :: "string \<Rightarrow> rx" where
  "lit s = seqs (map (\<lambda>k. one_of (\<lambda>c. c = k)) s)"

definition lit_ci :: "string \<Rightarrow> rx" where
  \<comment> \<open>a literal under \<open>re.IGNORECASE\<close>\<close>
  "lit_ci s = seqs (map (\<lambda>k. one_of (\<lambda>c. lower_char c = lower_char k)) s)"

section \<open>utils/helpers.py\<close>

definition ws_plus :: rx where
  \<comment> \<open>\<open>\s+\<close>\<close>
  "ws_plus = plus_of isspace"

definition clean_text :: "string \<Rightarrow> string" where
  "clean_text text =
     (let text = py_replace_char (CHR 0x0A) (CHR '' '') (py_replace_char (CHR 0x0D) (CHR '' '') text);
          text = re_sub ws_plus '' '' text
      in py_strip text)"

section \<open>Python values, floats and dictionaries\<close>

datatype error = OverflowError | ValueError | OtherError

text \<open>
  A \<open>float\<close> is a finite value (the rational it denotes), an infinity or a NaN; the two
  zeros are not told apart (Python compares them equal).  \<open>round_double\<close> rounds a
  rational to the nearest double, ties to even, as \<open>float(int)\<close> and \<open>float(str)\<close> do.
\<close>

datatype pyfloat = Fin rat | PosInf | NegInf | NaN

datatype pyval =
    PNone
  | PBool bool
  | PInt int
  | PFloat pyfloat
  | PStr string
  | PList "pyval list"
  | PDict "(string \<times> pyval) list"

type_synonym dict = "(string \<times> pyval) list"

definition pow2 :: "int \<Rightarrow> rat" where
  "pow2 k = (if 0 \<le> k then 2 ^ nat k else 1 / 2 ^ nat (- k))"

definition floor_log2 :: "rat \<Rightarrow> int" where
  \<comment> \<open>for \<open>a > 0\<close>: the \<open>e\<close> with \<open>2^e \<le> a < 2^(e+1)\<close>\<close>
  "floor_log2 a =
     (let (n, d) = quotient_of a; k = bitlen n - bitlen d
      in if pow2 k \<le> a then k else k - 1)"

definition round_half_even :: "rat \<Rightarrow> int" where
  "round_half_even r =
     (let f = \<lfloor>r\<rfloor>; d = r - of_int f
      in if d < 1 / 2 then f else if 1 / 2 < d then f + 1 else if even f then f else f + 1)"

definition round_double :: "rat \<Rightarrow> pyfloat" where
  "round_double q =
     (if q = 0 then Fin 0
      else
        let a = \<bar>q\<bar>;
            x = max (floor_log2 a - 52) (- 1074);
            v = of_int (round_half_even (a / pow2 x)) * pow2 x
        in if pow2 1024 \<le> v then (if q < 0 then NegInf else PosInf)
           else Fin (if q < 0 then - v else v))"

definition float_of_int :: "int \<Rightarrow> error + pyfloat" where
  \<comment> \<open>\<open>float(i)\<close>: OverflowError when the integer is beyond the double range\<close>
  "float_of_int i =
     (case round_double (of_int i) of Fin q \<Rightarrow> Inr (Fin q) | _ \<Rightarrow> Inl OverflowError)"

definition digits_value :: "string \<Rightarrow> nat" where
  "digits_value ds = foldl (\<lambda>a c. 10 * a + (of_char c - 48)) 0 ds"

definition is_plain_decimal :: "string \<Rightarrow> bool" where
  \<comment> \<open>digits, optionally followed by a point and digits\<close>
  "is_plain_decimal s =
     (let ip = takeWhile isdigit s; rest = dropWhile isdigit s
      in ip \<noteq> [] \<and>
         (rest = [] \<or> (hd rest = CHR ''.'' \<and> tl rest \<noteq> [] \<and> list_all isdigit (tl rest))))"

definition decimal_value :: "string \<Rightarrow> rat" where
  "decimal_value s =
     (let ip = takeWhile isdigit s; fp = drop 1 (dropWhile isdigit s)
      in of_nat (digits_value ip) + of_nat (digits_value fp) / 10 ^ length fp)"

definition float_of_str :: "string \<Rightarrow> error + pyfloat" where
  \<comment> \<open>\<open>float(s)\<close> on the plain decimals the program passes to it (the matches of
      \<open>\d+(?:\.\d+)?\<close>); other strings are not modelled and reported as ValueError\<close>
  "float_of_str s =
     (if is_plain_decimal s then Inr (round_double (decimal_value s)) else Inl ValueError)"

definition py_get :: "dict \<Rightarrow> string \<Rightarrow> pyval \<Rightarrow> pyval" where
  \<comment> \<open>\<open>d.get(k, default)\<close>\<close>
  "py_get d k dflt = (case map_of d k of Some v \<Rightarrow> v | None \<Rightarrow> dflt)"

definition py_set :: "dict \<Rightarrow> string \<Rightarrow> pyval \<Rightarrow> dict" where
  \<comment> \<open>\<open>d[k] = v\<close>: an existing key keeps its place\<close>
  "py_set d k v = AList.update k v d"

definition py_merge :: "dict \<Rightarrow> dict \<Rightarrow> dict" where
  \<comment> \<open>\<open>{**a, **b}\<close>\<close>
  "py_merge a b = foldl (\<lambda>d (k, v). py_set d k v) a b"

definition truthy :: "pyval \<Rightarrow> bool" where
  "truthy v =
     (case v of PNone \<Rightarrow> False | PBool b \<Rightarrow> b | PInt i \<Rightarrow> i \<noteq> 0 | PFloat f \<Rightarrow> f \<noteq> Fin 0
      | PStr s \<Rightarrow> s \<noteq> [] | PList l \<Rightarrow> l \<noteq> [] | PDict d \<Rightarrow> d \<noteq> [])"

definition is_default :: "pyval \<Rightarrow> bool" where
  \<comment> \<open>\<open>v in ("Not Found", 0.0, "")\<close>, with Python's \<open>==\<close> between numbers\<close>
  "is_default v =
     (case v of PStr s \<Rightarrow> s = ''Not Found'' \<or> s = [] | PFloat f \<Rightarrow> f = Fin 0
      | PInt i \<Rightarrow> i = 0 | PBool b \<Rightarrow> \<not> b | _ \<Rightarrow> False)"

section \<open>extractors/langchain\_extractor.py\<close>

record ResumeFields =
  rf_name :: string
  rf_email :: string
  rf_phone :: string
  rf_linkedin :: string
  rf_github :: string
  rf_highest_degree :: string
  rf_college_name :: string
  rf_graduation_year :: string
  rf_major :: string
  rf_cgpa :: string
  rf_total_experience_years :: pyfloat
  rf_current_company :: string
  rf_current_designation :: string
  rf_previous_companies :: string
  rf_technical_skills :: string
  rf_programming_languages :: string
  rf_frameworks_tools :: string
  rf_soft_skills :: string
  rf_certifications :: string

definition model_dump :: "ResumeFields \<Rightarrow> dict" where
  "model_dump r =
     [(''name'', PStr (rf_name r)), (''email'', PStr (rf_email r)),
      (''phone'', PStr (rf_phone r)), (''linkedin'', PStr (rf_linkedin r)),
      (''github'', PStr (rf_github r)), (''highest_degree'', PStr (rf_highest_degree r)),
      (''college_name'', PStr (rf_college_name r)),
      (''graduation_year'', PStr (rf_graduation_year r)),
      (''major'', PStr (rf_major r)), (''cgpa'', PStr (rf_cgpa r)),
      (''total_experience_years'', PFloat (rf_total_experience_years r)),
      (''current_company'', PStr (rf_current_company r)),
      (''current_designation'', PStr (rf_current_designation r)),
      (''previous_companies'', PStr (rf_previous_companies r)),
      (''technical_skills'', PStr (rf_technical_skills r)),
      (''programming_languages'', PStr (rf_programming_languages r)),
      (''frameworks_tools'', PStr (rf_frameworks_tools r)),
      (''soft_skills'', PStr (rf_soft_skills r)),
      (''certifications'', PStr (rf_certifications r))]"

definition extraction_keys :: "string list" where
  "extraction_keys =
     [''name'', ''email'', ''phone'', ''linkedin'', ''github'', ''highest_degree'',
      ''college_name'', ''graduation_year'', ''major'', ''cgpa'', ''total_experience_years'',
      ''current_company'', ''current_designation'', ''previous_companies'',
      ''technical_skills'', ''programming_languages'', ''frameworks_tools'', ''soft_skills'',
      ''certifications'']"

definition rule_defaults :: dict where
  "rule_defaults =
     map (\<lambda>k. (k, if k = ''total_experience_years'' then PFloat (Fin 0) else PStr ''Not Found''))
       extraction_keys"

definition email_rx :: rx where
  \<comment> \<open>\<open>[A-Za-z0-9._%+-]+@[A-Za-z0-9.-]+\.[A-Za-z]{2,}\<close>\<close>
  "email_rx =
     seqs [plus_of (\<lambda>c. is_az c \<or> isdigit c \<or> c \<in> set ''._%+-''),
           one_of (\<lambda>c. c = CHR ''@''),
           plus_of (\<lambda>c. is_az c \<or> isdigit c \<or> c \<in> set ''.-''),
           one_of (\<lambda>c. c = CHR ''.''),
           Cls is_az 2 None]"

definition phone_sep :: rx where
  \<comment> \<open>\<open>[\s.-]?\<close>\<close>
  "phone_sep = opt_of (\<lambda>c. isspace c \<or> c = CHR ''.'' \<or> c = CHR ''-'')"

definition phone_rx :: rx where
  \<comment> \<open>\<open>(?:(?:\+?\d{1,3}[\s.-]?)?(?:\(\d{2,4}\)[\s.-]?)?\d{3,4}[\s.-]?\d{3,4}[\s.-]?\d{0,4})\<close>\<close>
  "phone_rx =
     seqs [Opt (seqs [opt_of (\<lambda>c. c = CHR ''+''), rep_of isdigit 1 3, phone_sep]),
           Opt (seqs [one_of (\<lambda>c. c = CHR ''(''), rep_of isdigit 2 4,
                      one_of (\<lambda>c. c = CHR '')''), phone_sep]),
           rep_of isdigit 3 4, phone_sep, rep_of isdigit 3 4, phone_sep, rep_of isdigit 0 4]"

definition linkedin_rx :: rx where
  \<comment> \<open>\<open>linkedin\.com\S*\<close>, IGNORECASE\<close>
  "linkedin_rx = Seq (lit_ci ''linkedin.com'') (star_of (\<lambda>c. \<not> isspace c))"

definition github_rx :: rx where
  \<comment> \<open>\<open>github\.com\S*\<close>, IGNORECASE\<close>
  "github_rx = Seq (lit_ci ''github.com'') (star_of (\<lambda>c. \<not> isspace c))"

definition not_name_rx :: rx where
  \<comment> \<open>\<open>@|linkedin|github|\d\<close>, IGNORECASE\<close>
  "not_name_rx =
     Alt (lit ''@'') (Alt (lit_ci ''linkedin'') (Alt (lit_ci ''github'') (one_of isdigit)))"

definition year_rx :: rx where
  \<comment> \<open>\<open>(19|20)\d{2}\<close>\<close>
  "year_rx = Seq (Alt (lit ''19'') (lit ''20'')) (rep_of isdigit 2 2)"

definition skills_rx :: rx where
  \<comment> \<open>\<open>^skills\b\<close>, IGNORECASE, used with \<open>re.match\<close>\<close>
  "skills_rx = Seq (lit_ci ''skills'') WordB"

definition skills_sep_rx :: rx where
  \<comment> \<open>\<open>[,\|\n;]\<close>\<close>
  "skills_sep_rx = one_of (\<lambda>c. c \<in> set [CHR '','', CHR ''|'', CHR 0x0A, CHR '';''])"

definition header_keywords :: "string list" where
  "header_keywords = [''objective'', ''summary'', ''experience'', ''education'', ''skills'']"

definition degree_map :: "(string \<times> string) list" where
  "degree_map =
     [(''phd'', ''PhD''), (''doctor'', ''PhD''), (''masters'', ''Masters''), (''ms'', ''Masters''),
      (''m.s'', ''Masters''), (''m.tech'', ''Masters''), (''mtech'', ''Masters''),
      (''bachelors'', ''Bachelors''), (''bs'', ''Bachelors''), (''b.s'', ''Bachelors''),
      (''b.tech'', ''Bachelors''), (''btech'', ''Bachelors'')]"

definition set_if_match :: "dict \<Rightarrow> string \<Rightarrow> string option \<Rightarrow> dict" where
  \<comment> \<open>\<open>if m: data[k] = m.group(0)\<close>\<close>
  "set_if_match d k m = (case m of None \<Rightarrow> d | Some g \<Rightarrow> py_set d k (PStr g))"

definition name_candidate :: "string \<Rightarrow> bool" where
  "name_candidate line =
     (length (py_split_ws line) \<le> 6 \<and> py_lower line \<notin> set header_keywords
      \<and> re_search not_name_rx line = None)"

fun skills_section_of :: "string list \<Rightarrow> string option" where
  "skills_section_of [] = None"
| "skills_section_of (line # rest) =
     (if re_match skills_rx line \<noteq> None then Some (py_join '' '' (take 10 (line # rest)))
      else skills_section_of rest)"

definition skill_tokens :: "string \<Rightarrow> string list" where
  "skill_tokens section =
     sort (remdups (filter (\<lambda>p. 2 \<le> length p) (map py_strip (re_split skills_sep_rx section))))"

definition extract_with_rules :: "string option \<Rightarrow> dict" where
  "extract_with_rules resume_text =
     (let text = (case resume_text of None \<Rightarrow> [] | Some t \<Rightarrow> t);
          data = rule_defaults;
          data = set_if_match data ''email'' (re_search email_rx text);
          data = (case re_search phone_rx text of
                    None \<Rightarrow> data
                  | Some g \<Rightarrow> if 10 \<le> length (py_strip g)
                              then py_set data ''phone'' (PStr (py_strip g)) else data);
          data = set_if_match data ''linkedin'' (re_search linkedin_rx text);
          data = set_if_match data ''github'' (re_search github_rx text);
          lines = filter (\<lambda>line. line \<noteq> []) (map py_strip (py_splitlines text));
          data = set_if_match data ''name'' (find name_candidate (take 10 lines));
          lowered = py_lower text;
          data = set_if_match data ''highest_degree''
                   (map_option snd (find (\<lambda>(key, val). py_contains key lowered) degree_map));
          data = set_if_match data ''graduation_year'' (re_search year_rx text);
          data = (case skills_section_of lines of
                    None \<Rightarrow> data
                  | Some section \<Rightarrow>
                      if section = [] \<or> skill_tokens section = [] then data
                      else py_set data ''technical_skills''
                             (PStr (py_join '', '' (skill_tokens section))))
      in data)"

datatype call = Call_LLM string | Call_rules string

record llm_env =
  langchain_available :: bool  \<comment> \<open>\<open>ChatOpenAI is not None\<close>\<close>
  chain_invoke :: "string \<Rightarrow> error + ResumeFields"
    \<comment> \<open>building the chain and \<open>chain.invoke\<close> on the truncated text: a parsed result, or
        any exception\<close>

definition backfill :: "dict \<Rightarrow> dict \<Rightarrow> dict" where
  \<comment> \<open>the loop over \<open>rule_data.items()\<close>\<close>
  "backfill data rule_data =
     foldl (\<lambda>d (k, v).
              case map_of d k of
                None \<Rightarrow> d
              | Some old \<Rightarrow> if is_default old \<or> \<not> truthy old then py_set d k v else d)
       data rule_data"

definition extract_with_langchain :: "llm_env \<Rightarrow> string \<Rightarrow> call list \<times> dict" where
  \<comment> \<open>the returned mapping, with the calls made to the language model and to the rule
      extractor, in order\<close>
  "extract_with_langchain env resume_text =
     (if resume_text = [] \<or> length (py_strip resume_text) < 20 then ([], [])
      else if \<not> langchain_available env
      then ([Call_rules resume_text], extract_with_rules (Some resume_text))
      else
        case chain_invoke env (take 12000 resume_text) of
          Inl e \<Rightarrow>
            ([Call_LLM (take 12000 resume_text), Call_rules resume_text],
             extract_with_rules (Some resume_text))
        | Inr result \<Rightarrow>
            let data = model_dump result in
            if data = [] \<or> list_all is_default (map snd data)
            then ([Call_LLM (take 12000 resume_text), Call_rules resume_text],
                  backfill data (extract_with_rules (Some resume_text)))
            else ([Call_LLM (take 12000 resume_text)], data))"

section \<open>utils/validators.py\<close>

definition validate_keys :: "string list" where
  "validate_keys =
     [''resume_id'', ''file_name'', ''upload_date'', ''name'', ''email'', ''phone'',
      ''highest_degree'', ''college_name'', ''graduation_year'', ''major'', ''cgpa'',
      ''total_experience_years'', ''current_company'', ''current_designation'',
      ''previous_companies'', ''technical_skills'', ''programming_languages'',
      ''frameworks_tools'', ''soft_skills'', ''certifications'', ''linkedin'', ''github'']"

definition number_rx :: rx where
  \<comment> \<open>\<open>\d+(?:\.\d+)?\<close>\<close>
  "number_rx = Seq (plus_of isdigit) (Opt (Seq (one_of (\<lambda>c. c = CHR ''.'')) (plus_of isdigit)))"

definition py_str :: "(pyval \<Rightarrow> error + string) \<Rightarrow> pyval \<Rightarrow> error + string" where
  \<comment> \<open>\<open>str(v)\<close>; the text of a value that is not a string is left to the parameter
      \<open>str_of\<close>, which may raise\<close>
  "py_str str_of v = (case v of PStr s \<Rightarrow> Inr s | _ \<Rightarrow> str_of v)"

definition validate_experience :: "(pyval \<Rightarrow> error + string) \<Rightarrow> pyval \<Rightarrow> pyval" where
  "validate_experience str_of v =
     (case v of
        PBool b \<Rightarrow> PFloat (Fin (if b then 1 else 0))
      | PInt i \<Rightarrow> (case float_of_int i of Inr f \<Rightarrow> PFloat f | Inl e \<Rightarrow> PFloat (Fin 0))
      | PFloat f \<Rightarrow> PFloat f
      | _ \<Rightarrow>
          (case py_str str_of v of
             Inl e \<Rightarrow> PFloat (Fin 0)
           | Inr s \<Rightarrow>
               (case re_findall number_rx s of
                  [] \<Rightarrow> PFloat (Fin 0)
                | num0 # _ \<Rightarrow>
                    (case float_of_str num0 of Inr f \<Rightarrow> PFloat f | Inl e \<Rightarrow> PFloat (Fin 0)))))"

definition strip_if_str :: "pyval \<Rightarrow> pyval" where
  "strip_if_str v = (case v of PStr s \<Rightarrow> PStr (py_strip s) | _ \<Rightarrow> v)"

definition validate_year :: "(pyval \<Rightarrow> error + string) \<Rightarrow> pyval \<Rightarrow> pyval" where
  "validate_year str_of v =
     strip_if_str
       (case py_str str_of v of
          Inl e \<Rightarrow> PStr []
        | Inr s \<Rightarrow> (case re_search year_rx s of Some y \<Rightarrow> PStr y | None \<Rightarrow> PStr []))"

definition validate_field :: "(pyval \<Rightarrow> error + string) \<Rightarrow> string \<Rightarrow> pyval \<Rightarrow> pyval" where
  "validate_field str_of k v =
     (if k = ''total_experience_years'' then validate_experience str_of v
      else if k = ''graduation_year'' then validate_year str_of v
      else strip_if_str v)"

definition validate_resume_data :: "(pyval \<Rightarrow> error + string) \<Rightarrow> dict \<Rightarrow> dict" where
  "validate_resume_data str_of data =
     foldl (\<lambda>clean k. py_set clean k (validate_field str_of k (py_get data k (PStr ''Not Found''))))
       [] validate_keys"

section \<open>app.py: the pipeline\<close>

record 'b pipeline_env =
  extract_with_openai_vision :: "'b \<Rightarrow> string \<Rightarrow> error + dict"
  extract_text_from_pdf :: "'b \<Rightarrow> error + string"
  extract_text_from_docx :: "'b \<Rightarrow> error + string"
  llm :: llm_env
  generate_resume_id :: string
  now :: string  \<comment> \<open>the formatted \<open>datetime.now()\<close>\<close>
  str_of :: "pyval \<Rightarrow> error + string"

definition finish_record :: "'b pipeline_env \<Rightarrow> string \<Rightarrow> call list \<times> dict \<Rightarrow> call list \<times> dict option" where
  \<comment> \<open>from \<open>if not ai_data\<close> to the end of the function\<close>
  "finish_record env file_name r =
     (case r of (calls, ai_data) \<Rightarrow>
        if ai_data = [] then (calls, None)
        else
          let base = [(''resume_id'', PStr (generate_resume_id env)),
                      (''file_name'', PStr file_name),
                      (''upload_date'', PStr (now env))]
          in (calls, Some (validate_resume_data (str_of env) (py_merge base ai_data))))"

definition process_single_resume ::
  "'b pipeline_env \<Rightarrow> string \<Rightarrow> string \<Rightarrow> 'b \<Rightarrow> call list \<times> dict option" where
  \<comment> \<open>\<open>suffix\<close> is \<open>Path(file.name).suffix\<close>; the result is the record or \<open>None\<close>, with the
      calls the text tier made.  An exception anywhere is caught and gives \<open>None\<close>.\<close>
  "process_single_resume env file_name suffix file_content =
     (let file_extension = py_lower suffix in
      if file_extension = ''.pdf'' then
        (case extract_with_openai_vision env file_content ''pdf'' of
           Inl e \<Rightarrow> ([], None)
         | Inr ai_data \<Rightarrow>
             if ai_data = [] then
               (case extract_text_from_pdf env file_content of
                  Inl e \<Rightarrow> ([], None)
                | Inr text \<Rightarrow>
                    if text = [] \<or> length (py_strip text) < 50 then ([], None)
                    else finish_record env file_name
                           (extract_with_langchain (llm env) (clean_text text)))
             else finish_record env file_name ([], ai_data))
      else if file_extension \<in> set [''.docx'', ''.doc''] then
        (case extract_with_openai_vision env file_content ''docx'' of
           Inl e \<Rightarrow> ([], None)
         | Inr ai_data \<Rightarrow>
             if ai_data = [] then
               (case extract_text_from_docx env file_content of
                  Inl e \<Rightarrow> ([], None)
                | Inr text \<Rightarrow>
                    if text = [] then ([], None)
                    else if length (py_strip text) < 50 then ([], None)
                    else finish_record env file_name
                           (extract_with_langchain (llm env) (clean_text text)))
             else finish_record env file_name ([], ai_data))
      else ([], None))"

section \<open>extractors/vision\_extractor.py: rendering a PDF\<close>

record ('b, 'p, 'i) pdfium_env =
  pdfium_available :: bool  \<comment> \<open>neither \<open>pdfium\<close> nor \<open>Image\<close> is \<open>None\<close>\<close>
  open_document :: "'b \<Rightarrow> error + 'p list"  \<comment> \<open>\<open>PdfDocument\<close>: the pages, or an exception\<close>
  render_page :: "'p \<Rightarrow> pyfloat \<Rightarrow> error + 'i"
    \<comment> \<open>loading a page, rendering it at a scale and converting it to RGB\<close>

fun render_loop :: "('p \<Rightarrow> error + 'i) \<Rightarrow> 'p list \<Rightarrow> 'i list \<Rightarrow> 'i list" where
  "render_loop rnd [] images = images"
| "render_loop rnd (p # ps) images =
     (case rnd p of
        Inl e \<Rightarrow> images
      | Inr img \<Rightarrow> render_loop rnd ps (images @ [img]))"

definition pdf_to_images :: "('b, 'p, 'i) pdfium_env \<Rightarrow> 'b \<Rightarrow> int \<Rightarrow> pyfloat \<Rightarrow> 'i list" where
  "pdf_to_images env pdf_bytes max_pages scale =
     (if \<not> pdfium_available env then []
      else
        case open_document env pdf_bytes of
          Inl e \<Rightarrow> []
        | Inr pages \<Rightarrow>
            render_loop (\<lambda>p. render_page env p scale)
              (take (nat (min (int (length pages)) max_pages)) pages) [])"

definition default_max_pages :: int where
  "default_max_pages = 3"

definition default_scale :: pyfloat where
  "default_scale = Fin 2"

section \<open>storage/excel\_handler.py\<close>

text \<open>
  A table has column labels and rows of cells; a cell is a text, another scalar, or
  missing (\<open>None\<close>: pandas' NaN).  \<open>drop_duplicates\<close> treats missing cells as equal.
  The files are a map from paths to what \<open>pd.read_excel\<close> meets there: no file, a file
  it cannot read, or a table.  Writing replaces the entry of the path; creating the
  \<open>output\<close> directory and a failure of the write itself are not part of the model.
\<close>

datatype 'v cell = Text string | Scalar 'v

record 'v dataframe =
  columns :: "string list"
  rows :: "'v cell option list list"

datatype 'v stored = Absent | Unreadable | Table "'v dataframe"

definition cell_of :: "string list \<Rightarrow> 'v cell option list \<Rightarrow> string \<Rightarrow> 'v cell option" where
  "cell_of cols row c = (case map_of (zip cols row) c of Some v \<Rightarrow> v | None \<Rightarrow> None)"

definition reindex :: "'v dataframe \<Rightarrow> string list \<Rightarrow> 'v dataframe" where
  "reindex df cols =
     \<lparr>columns = cols, rows = map (\<lambda>r. map (cell_of (columns df) r) cols) (rows df)\<rparr>"

definition union_columns :: "string list \<Rightarrow> string list \<Rightarrow> string list" where
  \<comment> \<open>\<open>list(dict.fromkeys(a + b))\<close>\<close>
  "union_columns a b = foldl (\<lambda>acc c. if c \<in> set acc then acc else acc @ [c]) [] (a @ b)"

definition concat_frames :: "'v dataframe \<Rightarrow> 'v dataframe \<Rightarrow> 'v dataframe" where
  "concat_frames a b = \<lparr>columns = columns a, rows = rows a @ rows b\<rparr>"

fun keep_last :: "('a \<Rightarrow> 'k) \<Rightarrow> 'a list \<Rightarrow> 'a list" where
  "keep_last key [] = []"
| "keep_last key (r # rs) =
     (if key r \<in> set (map key rs) then keep_last key rs else r # keep_last key rs)"

definition identity_of :: "string list \<Rightarrow> string list \<Rightarrow> 'v cell option list \<Rightarrow> 'v cell option list" where
  "identity_of cols key_cols row = map (cell_of cols row) key_cols"

definition drop_duplicates :: "'v dataframe \<Rightarrow> string list \<Rightarrow> 'v dataframe" where
  \<comment> \<open>\<open>df.drop_duplicates(subset=..., keep='last')\<close>\<close>
  "drop_duplicates df key_cols =
     \<lparr>columns = columns df, rows = keep_last (identity_of (columns df) key_cols) (rows df)\<rparr>"

definition fill_cell :: "string \<Rightarrow> 'v cell option \<Rightarrow> 'v cell option" where
  "fill_cell txt c = (case c of None \<Rightarrow> Some (Text txt) | Some v \<Rightarrow> Some v)"

definition fillna :: "'v dataframe \<Rightarrow> string \<Rightarrow> 'v dataframe" where
  "fillna df txt = \<lparr>columns = columns df, rows = map (map (fill_cell txt)) (rows df)\<rparr>"

definition empty_frame :: "'v dataframe" where
  "empty_frame = \<lparr>columns = [], rows = []\<rparr>"

definition default_path :: string where
  "default_path = ''output/resume_data.xlsx''"

definition restrict_columns :: "'v dataframe \<Rightarrow> string list option \<Rightarrow> 'v dataframe" where
  "restrict_columns df selected_columns =
     (case selected_columns of
        None \<Rightarrow> df
      | Some sel \<Rightarrow>
          if sel = [] then df
          else reindex df (filter (\<lambda>c. c \<in> set (columns df)) sel))"

definition merged_table :: "'v stored \<Rightarrow> 'v dataframe \<Rightarrow> 'v dataframe" where
  "merged_table old df_to_save =
     (let existing = (case old of Table t \<Rightarrow> t | _ \<Rightarrow> empty_frame);
          all_cols = union_columns (columns existing) (columns df_to_save);
          existing = reindex existing all_cols;
          df_to_save = reindex df_to_save all_cols;
          combined = concat_frames existing df_to_save;
          combined =
            (if ''resume_id'' \<in> set (columns combined)
             then drop_duplicates combined [''resume_id'']
             else if list_all (\<lambda>c. c \<in> set (columns combined)) [''file_name'', ''upload_date'']
             then drop_duplicates combined [''file_name'', ''upload_date'']
             else combined)
      in fillna combined ''Not Found'')"

definition save_to_excel ::
  "(string \<Rightarrow> 'v stored) \<Rightarrow> 'v dataframe \<Rightarrow> string option \<Rightarrow> string list option \<Rightarrow> bool
     \<Rightarrow> (string \<Rightarrow> 'v stored) \<times> string" where
  \<comment> \<open>the files after the call, and the returned path\<close>
  "save_to_excel files df out_path selected_columns merge =
     (let out_path = (case out_path of None \<Rightarrow> default_path | Some p \<Rightarrow> p);
          df_to_save = restrict_columns df selected_columns;
          written = (if merge then merged_table (files out_path) df_to_save
                     else fillna df_to_save ''Not Found'')
      in (files(out_path := Table written), out_path))"

definition load_from_excel :: "(string \<Rightarrow> 'v stored) \<Rightarrow> string option \<Rightarrow> error + 'v dataframe option" where
  "load_from_excel files path =
     (case files (case path of None \<Rightarrow> default_path | Some p \<Rightarrow> p) of
        Absent \<Rightarrow> Inr None
      | Unreadable \<Rightarrow> Inl OtherError
      | Table t \<Rightarrow> Inr (Some t))"

section \<open>Predicates used in the statements\<close>

text \<open>No two adjacent whitespace characters.\<close>

fun no_ws_run :: "string \<Rightarrow> bool" where
  "no_ws_run (a # b # r) = (\<not> (isspace a \<and> isspace b) \<and> no_ws_run (b # r))"
| "no_ws_run _ = True"

text \<open>A text that starts with a year of the pattern \<open>(19|20)\d{2}\<close>.\<close>

fun year_at :: "string \<Rightarrow> bool" where
  "year_at (a # b # c # d # rest) =
     ((a = CHR ''1'' \<and> b = CHR ''9'' \<or> a = CHR ''2'' \<and> b = CHR ''0'') \<and> isdigit c \<and> isdigit d)"
| "year_at _ = False"

text \<open>A table as pandas holds it: distinct column labels, one cell per column in each row.\<close>

definition wf_frame :: "'v dataframe \<Rightarrow> bool" where
  \<comment> \<open>distinct column labels, and one cell per column in every row\<close>
  "wf_frame df =
     (distinct (columns df) \<and> list_all (\<lambda>r. length r = length (columns df)) (rows df))"

text \<open>Row \<open>i\<close> is the last row of its identity.\<close>

definition last_of_identity :: "('a \<Rightarrow> 'k) \<Rightarrow> 'a list \<Rightarrow> nat \<Rightarrow> bool" where
  \<comment> \<open>no later row has the identity of row \<open>i\<close>\<close>
  "last_of_identity key rs i = (key (rs ! i) \<notin> set (map key (drop (Suc i) rs)))"

section \<open>Example inputs\<close>

definition demo_llm :: llm_env where
  "demo_llm = \<lparr>langchain_available = True, chain_invoke = (\<lambda>t. Inl OtherError)\<rparr>"

definition short_text :: string where
  "short_text = ''  Jane Doe, engineer  ''"

definition text49 :: string where
  "text49 = '' Jane Doe, Senior Engineer, jane.doe@example.org x ''"

definition demo_env :: "nat pipeline_env" where
  "demo_env =
     \<lparr>extract_with_openai_vision = (\<lambda>b k. Inr []),
      extract_text_from_pdf = (\<lambda>b. Inr text49),
      extract_text_from_docx = (\<lambda>b. Inr text49),
      llm = demo_llm,
      generate_resume_id = ''id-1'',
      now = ''2024-01-01 00:00:00'',
      str_of = (\<lambda>v. Inr ''None'')\<rparr>"

definition messy_text :: string where
  "messy_text = [CHR 0x09, CHR '' ''] @ ''Jane'' @ [CHR 0x0D, CHR 0x0A, CHR 0xA0] @ ''Doe  Engineer'' @ [CHR 0x0A]"

definition two_page_pdfium :: "(nat, nat, nat) pdfium_env" where
  "two_page_pdfium =
     \<lparr>pdfium_available = True,
      open_document = (\<lambda>b. if b = 0 then Inl OtherError else Inr [1, 2, 3, 4]),
      render_page = (\<lambda>p scale. if p = 2 then Inl OtherError else Inr (10 * p))\<rparr>"

definition good_pdfium :: "(nat, nat, nat) pdfium_env" where
  "good_pdfium =
     \<lparr>pdfium_available = True,
      open_document = (\<lambda>b. Inr [1, 2, 3, 4]),
      render_page = (\<lambda>p scale. Inr (10 * p))\<rparr>"

definition all_default_fields :: ResumeFields where
  "all_default_fields =
     \<lparr>rf_name = ''Not Found'', rf_email = ''Not Found'', rf_phone = ''Not Found'',
      rf_linkedin = ''Not Found'', rf_github = ''Not Found'', rf_highest_degree = ''Not Found'',
      rf_college_name = ''Not Found'', rf_graduation_year = ''Not Found'', rf_major = ''Not Found'',
      rf_cgpa = ''Not Found'', rf_total_experience_years = Fin 0,
      rf_current_company = ''Not Found'', rf_current_designation = ''Not Found'',
      rf_previous_companies = ''Not Found'', rf_technical_skills = ''Not Found'',
      rf_programming_languages = ''Not Found'', rf_frameworks_tools = ''Not Found'',
      rf_soft_skills = ''Not Found'', rf_certifications = ''Not Found''\<rparr>"

definition contact_text :: string where
  "contact_text = ''Reach me at bob@example.com any time''"

definition name_only_llm :: llm_env where
  "name_only_llm =
     \<lparr>langchain_available = True,
      chain_invoke = (\<lambda>t. Inr (all_default_fields\<lparr>rf_name := ''Alice''\<rparr>))\<rparr>"

definition blank_llm :: llm_env where
  "blank_llm = \<lparr>langchain_available = True, chain_invoke = (\<lambda>t. Inr all_default_fields)\<rparr>"

definition phone_text :: string where
  "phone_text = ''Call 555-123-4567 now''"

definition short_phone_text :: string where
  "short_phone_text = ''123-456-78''"

definition demo_str :: "pyval \<Rightarrow> error + string" where
  "demo_str v = (case v of PNone \<Rightarrow> Inr ''None'' | PInt i \<Rightarrow> (if i = 2019 then Inr ''2019'' else Inl OtherError)
                 | _ \<Rightarrow> Inl OtherError)"

definition raw_record :: dict where
  "raw_record =
     [(''name'', PStr ''  Jane Doe ''), (''total_experience_years'', PStr ''5 years 3 months''),
      (''graduation_year'', PStr ''Class of 2019, GPA 3.8''), (''cgpa'', PNone),
      (''unknown_key'', PStr ''dropped'')]"


definition stored_old :: "string \<Rightarrow> nat stored" where
  "stored_old p =
     (if p = default_path
      then Table \<lparr>columns = [''resume_id'', ''name''],
                  rows = [[Some (Text ''A''), Some (Text ''Old'')],
                          [Some (Text ''B''), Some (Text ''Bob'')]]\<rparr>
      else Absent)"

definition new_rows :: "nat dataframe" where
  "new_rows =
     \<lparr>columns = [''resume_id'', ''name'', ''email''],
      rows = [[Some (Text ''A''), Some (Text ''New''), None]]\<rparr>"

section \<open>Properties\<close>

subsection \<open>The short-input gate of the text-model tier\<close>

text \<open>
  C10: the text-model tier returns the empty mapping for a text that is empty or whose
  trimmed length is below 20 characters, and it calls neither the language model nor
  the rule extractor (the list of calls is empty), whatever the environment.
\<close>

theorem short_input_gate:
  assumes "resume_text = [] \<or> length (py_strip resume_text) < 20"
  shows "extract_with_langchain env resume_text = ([], [])"
  using assms by (simp add: extract_with_langchain_def)

theorem short_input_gate_witness:
  "length (py_strip short_text) = 18
   \<and> extract_with_langchain demo_llm short_text = ([], [])"
  using short_input_gate [of short_text demo_llm]
  by (simp add: short_text_def py_strip_def isspace_def)

subsection \<open>Rejection of documents with insufficient text\<close>

text \<open>
  C2: a document for which the vision tier yields the empty mapping and whose extracted
  text has trimmed length below 50 gives no record, and the text tier is not entered (no
  call to the language model or to the rule extractor).  The extractor whose text is
  tested is the one of the document's own kind: the PDF text for a \<open>.pdf\<close> file, the
  DOCX text for a \<open>.docx\<close> or \<open>.doc\<close> file; nothing is assumed of the other extractor.
  A file of any other kind gives no record either.
\<close>

theorem insufficient_text_rejected:
  "(py_lower suffix = ''.pdf''
      \<and> extract_with_openai_vision env content ''pdf'' = Inr []
      \<and> extract_text_from_pdf env content = Inr text
      \<and> length (py_strip text) < 50
    \<longrightarrow> process_single_resume env file_name suffix content = ([], None))
   \<and> (py_lower suffix \<in> {''.docx'', ''.doc''}
      \<and> extract_with_openai_vision env content ''docx'' = Inr []
      \<and> extract_text_from_docx env content = Inr text
      \<and> length (py_strip text) < 50
    \<longrightarrow> process_single_resume env file_name suffix content = ([], None))
   \<and> (py_lower suffix \<notin> {''.pdf'', ''.docx'', ''.doc''}
    \<longrightarrow> process_single_resume env file_name suffix content = ([], None))"
  by (simp add: process_single_resume_def Let_def)

theorem insufficient_text_rejected_witness:
  "length (py_strip text49) = 49
   \<and> process_single_resume (demo_env\<lparr>extract_text_from_docx := (\<lambda>b. Inl OtherError)\<rparr>)
        ''cv.pdf'' ''.pdf'' 0 = ([], None)
   \<and> process_single_resume (demo_env\<lparr>extract_text_from_pdf := (\<lambda>b. Inl OtherError)\<rparr>)
        ''cv.DOCX'' ''.DOCX'' 0 = ([], None)"
proof -
  have low: "py_lower ''.pdf'' = ''.pdf''" "py_lower ''.DOCX'' = ''.docx''"
    by code_simp+
  have len: "length (py_strip text49) = 49"
    by (simp add: text49_def py_strip_def isspace_def)
  from low len
    insufficient_text_rejected [of "''.pdf''"
      "demo_env\<lparr>extract_text_from_docx := (\<lambda>b. Inl OtherError)\<rparr>" 0 text49 "''cv.pdf''"]
    insufficient_text_rejected [of "''.DOCX''"
      "demo_env\<lparr>extract_text_from_pdf := (\<lambda>b. Inl OtherError)\<rparr>" 0 text49 "''cv.DOCX''"]
  show ?thesis by (simp add: demo_env_def)
qed

subsection \<open>Text cleaning\<close>

lemma cls_rep_unbounded:
  "(cls_rep P m None p s \<noteq> [] \<longleftrightarrow> m \<le> length (takeWhile P s))
   \<and> (cls_rep P m None p s \<noteq> [] \<longrightarrow> snd (hd (cls_rep P m None p s)) = dropWhile P s)"
proof (induction s arbitrary: m p)
  case Nil
  show ?case by simp
next
  case (Cons c cs)
  show ?case
  proof (cases "P c")
    case True
    note ih = Cons.IH [of "m - 1" "Some c"]
    show ?thesis
    proof (cases "m = 0")
      case True
      with \<open>P c\<close> ih show ?thesis by simp
    next
      case False
      with \<open>P c\<close> ih show ?thesis by (auto simp: Suc_le_eq)
    qed
  next
    case False
    then show ?thesis by simp
  qed
qed

lemma first_match_ws_plus_None:
  "first_match ws_plus p s = None \<longleftrightarrow> (s = [] \<or> \<not> isspace (hd s))"
proof -
  have "cls_rep isspace 1 None p s \<noteq> [] \<longleftrightarrow> 1 \<le> length (takeWhile isspace s)"
    using cls_rep_unbounded [of isspace 1 p s] by blast
  also have "\<dots> \<longleftrightarrow> s \<noteq> [] \<and> isspace (hd s)"
    by (cases s) auto
  finally show ?thesis
    by (auto simp: first_match_def ws_plus_def plus_of_def split: list.splits)
qed

lemma first_match_ws_plus_Some:
  assumes "first_match ws_plus p s = Some (p', s')"
  shows "s' = dropWhile isspace s"
proof -
  from assms have ne: "cls_rep isspace 1 None p s \<noteq> []"
    and hd: "hd (cls_rep isspace 1 None p s) = (p', s')"
    by (auto simp: first_match_def ws_plus_def plus_of_def split: list.splits)
  from ne cls_rep_unbounded [of isspace 1 p s]
  have "snd (hd (cls_rep isspace 1 None p s)) = dropWhile isspace s" by blast
  with hd show ?thesis by simp
qed

lemma re_sub_ws_shape:
  "(\<forall>x \<in> set (re_sub_go ws_plus '' '' p s). isspace x \<longrightarrow> x = CHR '' '')
   \<and> no_ws_run (re_sub_go ws_plus '' '' p s)
   \<and> (re_sub_go ws_plus '' '' p s \<noteq> [] \<and> isspace (hd (re_sub_go ws_plus '' '' p s))
        \<longrightarrow> s \<noteq> [] \<and> isspace (hd s))"
proof (induction s arbitrary: p rule: length_induct)
  case (1 s)
  show ?case
  proof (cases s)
    case Nil
    then show ?thesis by simp
  next
    case (Cons c cs)
    show ?thesis
    proof (cases "isspace c")
      case True
      then obtain p' s' where fm: "first_match ws_plus p (c # cs) = Some (p', s')"
        using first_match_ws_plus_None [of p "c # cs"] by (cases "first_match ws_plus p (c # cs)") auto
      then have s': "s' = dropWhile isspace cs"
        using first_match_ws_plus_Some [OF fm] True by simp
      have len: "length s' < length (c # cs)"
        unfolding s' using length_dropWhile_le [of isspace cs] by simp
      have out: "re_sub_go ws_plus '' '' p s = CHR '' '' # re_sub_go ws_plus '' '' p' s'"
        using fm len Cons by simp
      from len Cons have ih: "(\<forall>x \<in> set (re_sub_go ws_plus '' '' p' s'). isspace x \<longrightarrow> x = CHR '' '')
          \<and> no_ws_run (re_sub_go ws_plus '' '' p' s')
          \<and> (re_sub_go ws_plus '' '' p' s' \<noteq> [] \<and> isspace (hd (re_sub_go ws_plus '' '' p' s'))
                \<longrightarrow> s' \<noteq> [] \<and> isspace (hd s'))"
        using "1.IH" [rule_format, of s' p'] by simp
      have nohd: "\<not> (s' \<noteq> [] \<and> isspace (hd s'))"
        unfolding s' using hd_dropWhile [of isspace cs] by blast
      show ?thesis
        unfolding out using ih nohd True Cons
        by (cases "re_sub_go ws_plus '' '' p' s'") auto
    next
      case False
      then have fm: "first_match ws_plus p (c # cs) = None"
        using first_match_ws_plus_None [of p "c # cs"] by simp
      have out: "re_sub_go ws_plus '' '' p s = c # re_sub_go ws_plus '' '' (Some c) cs"
        using fm Cons by simp
      from Cons have ih: "(\<forall>x \<in> set (re_sub_go ws_plus '' '' (Some c) cs). isspace x \<longrightarrow> x = CHR '' '')
          \<and> no_ws_run (re_sub_go ws_plus '' '' (Some c) cs)"
        using "1.IH" [rule_format, of cs "Some c"] by simp
      show ?thesis
        unfolding out using ih False Cons
        by (cases "re_sub_go ws_plus '' '' (Some c) cs") auto
    qed
  qed
qed

lemma no_ws_run_nth:
  "no_ws_run xs \<Longrightarrow> Suc i < length xs \<Longrightarrow> \<not> (isspace (xs ! i) \<and> isspace (xs ! Suc i))"
proof (induction xs arbitrary: i rule: no_ws_run.induct)
  case (1 a b r)
  then show ?case by (cases i) auto
qed auto

lemma py_strip_window:
  "\<exists>m n. py_strip s = take n (drop m s) \<and> m + n \<le> length s"
proof -
  let ?t = "dropWhile isspace s"
  have t: "?t = drop (length (takeWhile isspace s)) s"
    by (simp add: dropWhile_eq_drop)
  have "rev (dropWhile isspace (rev ?t)) = rev (drop (length (takeWhile isspace (rev ?t))) (rev ?t))"
    by (simp add: dropWhile_eq_drop)
  also have "\<dots> = take (length ?t - length (takeWhile isspace (rev ?t))) ?t"
    by (simp add: rev_drop)
  finally have "py_strip s = take (length ?t - length (takeWhile isspace (rev ?t))) (drop (length (takeWhile isspace s)) s)"
    unfolding py_strip_def using t by simp
  moreover have "length (takeWhile isspace s) + (length ?t - length (takeWhile isspace (rev ?t))) \<le> length s"
    using t by (metis add_diff_cancel_left' diff_le_self le_add_diff_inverse length_drop length_takeWhile_le nat_add_left_cancel_le)
  ultimately show ?thesis by blast
qed

lemma py_strip_ends:
  "py_strip s \<noteq> [] \<Longrightarrow> \<not> isspace (hd (py_strip s)) \<and> \<not> isspace (last (py_strip s))"
proof -
  assume ne: "py_strip s \<noteq> []"
  let ?t = "dropWhile isspace s"
  let ?u = "dropWhile isspace (rev ?t)"
  from ne have u: "?u \<noteq> []" by (simp add: py_strip_def)
  have t: "?t \<noteq> []"
  proof
    assume a: "?t = []"
    have "?u = []" by (simp only: a rev.simps dropWhile.simps)
    with u show False by simp
  qed
  have "last (py_strip s) = hd ?u" using u by (simp add: py_strip_def last_rev)
  moreover have "\<not> isspace (hd ?u)" using u hd_dropWhile by blast
  moreover have "hd (py_strip s) = last ?u" using u by (simp add: py_strip_def hd_rev)
  moreover have "last ?u = last (rev ?t)"
    using u by (metis append_is_Nil_conv last_appendR takeWhile_dropWhile_id)
  moreover have "last (rev ?t) = hd ?t" using t by (simp add: last_rev)
  moreover have "\<not> isspace (hd ?t)" using t hd_dropWhile by blast
  ultimately show ?thesis by simp
qed

lemma re_sub_ws_step:
  "re_sub_go ws_plus '' '' p (c # cs) =
     (if isspace c then CHR '' '' # re_sub_go ws_plus '' '' q (dropWhile isspace cs)
      else c # re_sub_go ws_plus '' '' q cs)"
proof -
  have indep: "re_sub_go ws_plus '' '' p s = re_sub_go ws_plus '' '' q s" for p q s
  proof (induction s arbitrary: p q rule: length_induct)
    case (1 s)
    show ?case
    proof (cases s)
      case Nil
      then show ?thesis by simp
    next
      case (Cons d ds)
      show ?thesis
      proof (cases "isspace d")
        case True
        obtain p' s' where fp: "first_match ws_plus p (d # ds) = Some (p', s')"
          using first_match_ws_plus_None [of p "d # ds"] True
          by (cases "first_match ws_plus p (d # ds)") auto
        obtain q' t' where fq: "first_match ws_plus q (d # ds) = Some (q', t')"
          using first_match_ws_plus_None [of q "d # ds"] True
          by (cases "first_match ws_plus q (d # ds)") auto
        from first_match_ws_plus_Some [OF fp] True have s': "s' = dropWhile isspace ds" by simp
        from first_match_ws_plus_Some [OF fq] True have t': "t' = dropWhile isspace ds" by simp
        have len: "length s' < length (d # ds)"
          unfolding s' using length_dropWhile_le [of isspace ds] by simp
        from len Cons have "re_sub_go ws_plus '' '' p' s' = re_sub_go ws_plus '' '' q' s'"
          using "1.IH" [rule_format, of s' p' q'] by simp
        with fp fq len s' t' Cons show ?thesis by simp
      next
        case False
        then have "first_match ws_plus p (d # ds) = None" "first_match ws_plus q (d # ds) = None"
          using first_match_ws_plus_None [of p "d # ds"] first_match_ws_plus_None [of q "d # ds"]
          by simp_all
        moreover from Cons have
          "re_sub_go ws_plus '' '' (Some d) ds = re_sub_go ws_plus '' '' (Some d) ds" by simp
        ultimately show ?thesis using Cons by simp
      qed
    qed
  qed
  show ?thesis
  proof (cases "isspace c")
    case True
    obtain p' s' where fp: "first_match ws_plus p (c # cs) = Some (p', s')"
      using first_match_ws_plus_None [of p "c # cs"] True
      by (cases "first_match ws_plus p (c # cs)") auto
    from first_match_ws_plus_Some [OF fp] True have s': "s' = dropWhile isspace cs" by simp
    have len: "length s' < length (c # cs)"
      unfolding s' using length_dropWhile_le [of isspace cs] by simp
    from fp len have "re_sub_go ws_plus '' '' p (c # cs) = CHR '' '' # re_sub_go ws_plus '' '' p' s'"
      by simp
    with indep [of p' s' q] s' True show ?thesis by simp
  next
    case False
    then have "first_match ws_plus p (c # cs) = None"
      using first_match_ws_plus_None [of p "c # cs"] by simp
    then have "re_sub_go ws_plus '' '' p (c # cs) = c # re_sub_go ws_plus '' '' (Some c) cs"
      by simp
    with indep [of "Some c" cs q] False show ?thesis by simp
  qed
qed

lemma rstrip_append:
  "dropWhile isspace (rev y) \<noteq> []
   \<Longrightarrow> rev (dropWhile isspace (rev (x @ y))) = x @ rev (dropWhile isspace (rev y))"
proof -
  assume "dropWhile isspace (rev y) \<noteq> []"
  then obtain k where "k \<in> set (rev y)" "\<not> isspace k"
    by (metis dropWhile_eq_Nil_conv)
  then have "dropWhile isspace (rev y @ rev x) = dropWhile isspace (rev y) @ rev x"
    by (rule dropWhile_append1)
  then show ?thesis by simp
qed

lemma rstrip_word:
  "\<forall>c \<in> set w. \<not> isspace c \<Longrightarrow> rev (dropWhile isspace (rev w)) = w"
  by (cases "rev w") (auto simp add: rev_swap [symmetric])

lemma split_ws_go_nonempty: "acc \<noteq> [] \<Longrightarrow> split_ws_go s acc \<noteq> []"
  by (induction s arbitrary: acc) auto

lemma split_ws_go_drop: "split_ws_go s [] = split_ws_go (dropWhile isspace s) []"
  by (induction s) auto

lemma split_ws_go_map:
  assumes "\<And>c. isspace (f c) = isspace c" and "\<And>c. \<not> isspace c \<Longrightarrow> f c = c"
  shows "split_ws_go (map f s) acc = split_ws_go s acc"
  using assms by (induction s arbitrary: acc) auto

lemma py_join_cons: "ws \<noteq> [] \<Longrightarrow> py_join sep (w # ws) = w @ sep @ py_join sep ws"
  by (cases ws) simp_all

lemma collapse_words:
  "\<forall>c \<in> set acc. \<not> isspace c \<Longrightarrow> acc = [] \<longrightarrow> s = [] \<or> \<not> isspace (hd s)
   \<Longrightarrow> rev (dropWhile isspace (rev (rev acc @ re_sub_go ws_plus '' '' None s)))
         = py_join '' '' (split_ws_go s acc)"
proof (induction s arbitrary: acc rule: length_induct)
  case (1 s)
  note acc = "1.prems"(1) and lead = "1.prems"(2)
  from acc have word: "rev (dropWhile isspace (rev (rev acc))) = rev acc"
    by (intro rstrip_word) simp
  show ?case
  proof (cases s)
    case Nil
    with word show ?thesis by simp
  next
    case (Cons c cs)
    show ?thesis
    proof (cases "isspace c")
      case False
      have "rev (dropWhile isspace (rev (rev (c # acc) @ re_sub_go ws_plus '' '' None cs)))
              = py_join '' '' (split_ws_go cs (c # acc))"
      proof (rule "1.IH" [rule_format])
        show "length cs < length s" using Cons by simp
        show "\<not> isspace k" if "k \<in> set (c # acc)" for k using that acc False by auto
        show "cs = [] \<or> \<not> isspace (hd cs)" if "c # acc = []" using that by simp
      qed
      moreover have "re_sub_go ws_plus '' '' None (c # cs) = c # re_sub_go ws_plus '' '' None cs"
        using re_sub_ws_step [of None c cs None] False by simp
      ultimately show ?thesis using Cons False by simp
    next
      case True
      with lead Cons have ne: "acc \<noteq> []" by auto
      define r where "r = dropWhile isspace cs"
      have out: "re_sub_go ws_plus '' '' None (c # cs) = CHR '' '' # re_sub_go ws_plus '' '' None r"
        unfolding r_def using re_sub_ws_step [of None c cs None] True by simp
      have spl: "split_ws_go (c # cs) acc = rev acc # split_ws_go r []"
        unfolding r_def using True ne split_ws_go_drop [of cs] by simp
      have lenr: "length r < length s"
        unfolding r_def using Cons length_dropWhile_le [of isspace cs] by simp
      have lead_r: "r = [] \<or> \<not> isspace (hd r)"
        unfolding r_def using hd_dropWhile [of isspace cs] by blast
      have sp: "isspace (CHR '' '')" by (simp add: isspace_def)
      from acc ne have da: "dropWhile isspace acc = acc" by (cases acc) simp_all
      show ?thesis
      proof (cases r)
        case Nil
        have "rev (dropWhile isspace (rev (rev acc @ [CHR '' '']))) = rev acc"
          by (simp add: sp da)
        then show ?thesis
          unfolding \<open>s = c # cs\<close> out spl Nil by simp
      next
        case (Cons d ds)
        with lead_r have nd: "\<not> isspace d" by simp
        have "rev (dropWhile isspace (rev (rev [] @ re_sub_go ws_plus '' '' None r)))
                    = py_join '' '' (split_ws_go r [])"
        proof (rule "1.IH" [rule_format])
          show "length r < length s" by (rule lenr)
          show "\<not> isspace k" if "k \<in> set []" for k using that by simp
          show "r = [] \<or> \<not> isspace (hd r)" by (rule lead_r)
        qed
        then have ih: "rev (dropWhile isspace (rev (re_sub_go ws_plus '' '' None r)))
                    = py_join '' '' (split_ws_go r [])"
          by simp
        have rd: "re_sub_go ws_plus '' '' None r = d # re_sub_go ws_plus '' '' None ds"
          unfolding Cons using re_sub_ws_step [of None d ds None] nd by simp
        have "d \<in> set (rev (re_sub_go ws_plus '' '' None r))" unfolding rd by simp
        with nd have nz: "dropWhile isspace (rev (re_sub_go ws_plus '' '' None r)) \<noteq> []"
          by (metis dropWhile_eq_Nil_conv)
        have lhs: "rev (dropWhile isspace (rev (rev acc @ CHR '' '' # re_sub_go ws_plus '' '' None r)))
                = rev acc @ '' '' @ rev (dropWhile isspace (rev (re_sub_go ws_plus '' '' None r)))"
          using rstrip_append [OF nz, of "rev acc @ '' ''"] by simp
        have "split_ws_go r [] \<noteq> []"
          unfolding Cons using nd split_ws_go_nonempty [of "[d]" ds] by simp
        then have rhs: "py_join '' '' (rev acc # split_ws_go r [])
                = rev acc @ '' '' @ py_join '' '' (split_ws_go r [])"
          by (rule py_join_cons)
        show ?thesis
          unfolding \<open>s = c # cs\<close> out spl lhs rhs ih ..
      qed
    qed
  qed
qed

lemma re_sub_ws_drop:
  "dropWhile isspace (re_sub_go ws_plus '' '' None s)
     = re_sub_go ws_plus '' '' None (dropWhile isspace s)"
proof (cases s)
  case Nil
  then show ?thesis by simp
next
  case (Cons c cs)
  show ?thesis
  proof (cases "isspace c")
    case False
    with Cons show ?thesis
      using re_sub_ws_step [of None c cs None] by simp
  next
    case True
    let ?r = "dropWhile isspace cs"
    have out: "re_sub_go ws_plus '' '' None (c # cs) = CHR '' '' # re_sub_go ws_plus '' '' None ?r"
      using re_sub_ws_step [of None c cs None] True by simp
    have "dropWhile isspace (re_sub_go ws_plus '' '' None ?r) = re_sub_go ws_plus '' '' None ?r"
    proof (cases ?r)
      case Nil
      show ?thesis by (simp only: Nil re_sub_go.simps dropWhile.simps)
    next
      case (Cons d ds)
      have nd: "\<not> isspace d"
        using hd_dropWhile [of isspace cs] Cons by (metis list.sel(1) list.distinct(1))
      then show ?thesis
        using re_sub_ws_step [of None d ds None] Cons by simp
    qed
    with out True Cons show ?thesis by (simp add: isspace_def)
  qed
qed

lemma clean_text_words: "clean_text s = py_join '' '' (py_split_ws s)"
proof -
  define f where "f = (\<lambda>c. if c = CHR 0x0A then CHR '' '' else if c = CHR 0x0D then CHR '' '' else c)"
  define t where "t = map f s"
  have t: "py_replace_char (CHR 0x0A) (CHR '' '') (py_replace_char (CHR 0x0D) (CHR '' '') s) = t"
    by (simp add: py_replace_char_def t_def f_def)
  have f1: "isspace (f c) = isspace c" for c
    by (simp add: f_def isspace_def)
  have f2: "f c = c" if "\<not> isspace c" for c
    using that by (auto simp add: f_def isspace_def)
  have words: "split_ws_go t [] = split_ws_go s []"
    unfolding t_def using f1 f2 by (rule split_ws_go_map)
  let ?r = "dropWhile isspace t"
  have lead: "?r = [] \<or> \<not> isspace (hd ?r)"
    using hd_dropWhile [of isspace t] by blast
  have "clean_text s = py_strip (re_sub_go ws_plus '' '' None t)"
    by (simp add: clean_text_def t re_sub_def)
  also have "\<dots> = rev (dropWhile isspace (rev (re_sub_go ws_plus '' '' None ?r)))"
    by (simp add: py_strip_def re_sub_ws_drop)
  also have "\<dots> = py_join '' '' (split_ws_go ?r [])"
    using collapse_words [of "[]" ?r] lead by simp
  also have "\<dots> = py_join '' '' (split_ws_go s [])"
    using split_ws_go_drop [of t] words by simp
  finally show ?thesis by (simp add: py_split_ws_def)
qed

lemma split_ws_go_concat:
  "concat (split_ws_go s acc) = rev acc @ filter (\<lambda>c. \<not> isspace c) s"
  by (induction s arbitrary: acc) simp_all

lemma split_ws_go_words:
  "\<forall>c \<in> set acc. \<not> isspace c \<Longrightarrow> w \<in> set (split_ws_go s acc)
   \<Longrightarrow> w \<noteq> [] \<and> (\<forall>c \<in> set w. \<not> isspace c)"
proof (induction s arbitrary: acc)
  case Nil
  then show ?case by (cases "acc = []") auto
next
  case (Cons c cs)
  show ?case
  proof (cases "isspace c")
    case True
    show ?thesis
    proof (cases "acc = []")
      case True
      with \<open>isspace c\<close> Cons.prems have "w \<in> set (split_ws_go cs [])" by simp
      then show ?thesis using Cons.IH [of "[]"] by simp
    next
      case False
      with \<open>isspace c\<close> Cons.prems have "w = rev acc \<or> w \<in> set (split_ws_go cs [])" by simp
      then show ?thesis
      proof
        assume "w = rev acc"
        with False Cons.prems(1) show ?thesis by simp
      next
        assume "w \<in> set (split_ws_go cs [])"
        then show ?thesis using Cons.IH [of "[]"] by simp
      qed
    qed
  next
    case False
    with Cons.prems have "w \<in> set (split_ws_go cs (c # acc))" by simp
    moreover from False Cons.prems(1) have "\<forall>k \<in> set (c # acc). \<not> isspace k" by simp
    ultimately show ?thesis by (rule Cons.IH [rotated])
  qed
qed

lemma clean_text_shape:
  "CHR 0x0D \<notin> set (clean_text s) \<and> CHR 0x0A \<notin> set (clean_text s)
   \<and> (\<forall>c \<in> set (clean_text s). isspace c \<longrightarrow> c = CHR '' '')
   \<and> (\<forall>i. Suc i < length (clean_text s)
          \<longrightarrow> \<not> (isspace (clean_text s ! i) \<and> isspace (clean_text s ! Suc i)))
   \<and> (clean_text s \<noteq> [] \<longrightarrow> \<not> isspace (hd (clean_text s)) \<and> \<not> isspace (last (clean_text s)))"
proof -
  define t where "t = py_replace_char (CHR 0x0A) (CHR '' '') (py_replace_char (CHR 0x0D) (CHR '' '') s)"
  define u where "u = re_sub ws_plus '' '' t"
  have ct: "clean_text s = py_strip u"
    by (simp add: clean_text_def t_def u_def)
  have u1: "\<forall>x \<in> set u. isspace x \<longrightarrow> x = CHR '' ''" and u2: "no_ws_run u"
    using re_sub_ws_shape [of None t] by (simp_all add: u_def re_sub_def)
  obtain m n where win: "py_strip u = take n (drop m u)" and mn: "m + n \<le> length u"
    using py_strip_window by blast
  have sub: "set (py_strip u) \<subseteq> set u"
    unfolding win by (meson set_drop_subset set_take_subset subset_trans)
  have cr: "CHR 0x0D \<notin> set (py_strip u)"
  proof
    assume "CHR 0x0D \<in> set (py_strip u)"
    with sub have "CHR 0x0D \<in> set u" by blast
    with u1 show False by (auto simp: isspace_def)
  qed
  have lf: "CHR 0x0A \<notin> set (py_strip u)"
  proof
    assume "CHR 0x0A \<in> set (py_strip u)"
    with sub have "CHR 0x0A \<in> set u" by blast
    with u1 show False by (auto simp: isspace_def)
  qed
  have adj: "\<not> (isspace (py_strip u ! i) \<and> isspace (py_strip u ! Suc i))"
    if "Suc i < length (py_strip u)" for i
  proof -
    from that win mn have i: "Suc i < n" "Suc (m + i) < length u" by auto
    then have "py_strip u ! i = u ! (m + i)" "py_strip u ! Suc i = u ! Suc (m + i)"
      unfolding win by simp_all
    with no_ws_run_nth [OF u2 i(2)] show ?thesis by simp
  qed
  have only: "\<forall>x \<in> set (py_strip u). isspace x \<longrightarrow> x = CHR '' ''"
    using u1 sub by blast
  show ?thesis
    unfolding ct using cr lf adj only py_strip_ends [of u] by blast
qed

text \<open>
  C9: the output of \<open>clean_text\<close> is the words of the input, in order, joined by single
  spaces, where the words (\<open>text.split()\<close>) are the runs of non-whitespace characters of
  the input: each is non-empty and free of whitespace, and together they are the
  non-whitespace characters of the input in order.  So every run of whitespace between
  two words is collapsed to one space and the whitespace at the ends is dropped.  In
  particular the output contains no carriage return and no newline, its only whitespace
  character is the space, no two whitespace characters are adjacent, and it neither
  starts nor ends with whitespace.
\<close>

theorem clean_text_normalised:
  "clean_text s = py_join '' '' (py_split_ws s)
   \<and> (\<forall>w \<in> set (py_split_ws s). w \<noteq> [] \<and> (\<forall>c \<in> set w. \<not> isspace c))
   \<and> concat (py_split_ws s) = filter (\<lambda>c. \<not> isspace c) s
   \<and> CHR 0x0D \<notin> set (clean_text s) \<and> CHR 0x0A \<notin> set (clean_text s)
   \<and> (\<forall>c \<in> set (clean_text s). isspace c \<longrightarrow> c = CHR '' '')
   \<and> (\<forall>i. Suc i < length (clean_text s)
          \<longrightarrow> \<not> (isspace (clean_text s ! i) \<and> isspace (clean_text s ! Suc i)))
   \<and> (clean_text s \<noteq> [] \<longrightarrow> \<not> isspace (hd (clean_text s)) \<and> \<not> isspace (last (clean_text s)))"
proof -
  have words: "\<forall>w \<in> set (py_split_ws s). w \<noteq> [] \<and> (\<forall>c \<in> set w. \<not> isspace c)"
    using split_ws_go_words [of "[]" _ s] by (simp add: py_split_ws_def)
  have chars: "concat (py_split_ws s) = filter (\<lambda>c. \<not> isspace c) s"
    by (simp add: py_split_ws_def split_ws_go_concat)
  from clean_text_words [of s] words chars clean_text_shape [of s] show ?thesis
    by (intro conjI) blast+
qed

theorem clean_text_normalised_witness:
  "clean_text messy_text = ''Jane Doe Engineer''
   \<and> py_split_ws messy_text = [''Jane'', ''Doe'', ''Engineer'']
   \<and> CHR 0x0D \<notin> set (clean_text messy_text) \<and> CHR 0x0A \<notin> set (clean_text messy_text)
   \<and> \<not> (isspace (clean_text messy_text ! 4) \<and> isspace (clean_text messy_text ! 5))
   \<and> \<not> isspace (hd (clean_text messy_text)) \<and> \<not> isspace (last (clean_text messy_text))"
proof -
  have w: "py_split_ws messy_text = [''Jane'', ''Doe'', ''Engineer'']"
    by code_simp
  from clean_text_normalised [of messy_text]
  have "clean_text messy_text = py_join '' '' (py_split_ws messy_text)" by blast
  with w have c: "clean_text messy_text = ''Jane Doe Engineer''" by simp
  show ?thesis
    unfolding c w by (simp add: isspace_def)
qed

subsection \<open>Rendering a PDF to images\<close>

lemma render_loop_prefix:
  "render_loop rnd ps images
     = images @ map projr (takeWhile (\<lambda>r. \<not> isl r) (map rnd ps))"
proof (induction ps arbitrary: images)
  case Nil
  show ?case by simp
next
  case (Cons p ps)
  show ?case
  proof (cases "rnd p")
    case (Inl e)
    then show ?thesis by simp
  next
    case (Inr img)
    then show ?thesis using Cons.IH [of "images @ [img]"] by simp
  qed
qed

text \<open>
  C8 (as amended): rendering never raises; without the library, or when the document
  cannot be opened, the result is empty; otherwise the result is the images of the
  first \<open>min(page count, max_pages)\<close> pages, in document order, up to the first page
  that fails (the images rendered before a failing page are returned, not the empty
  sequence); when no page fails there is one image per page.
\<close>

theorem pdf_to_images_pages:
  "(\<not> pdfium_available env \<longrightarrow> pdf_to_images env pdf_bytes max_pages scale = [])
    \<and> (\<forall>e. open_document env pdf_bytes = Inl e \<longrightarrow> pdf_to_images env pdf_bytes max_pages scale = [])
    \<and> (\<forall>pages. pdfium_available env \<and> open_document env pdf_bytes = Inr pages \<longrightarrow>
          pdf_to_images env pdf_bytes max_pages scale
            = map projr (takeWhile (\<lambda>r. \<not> isl r)
                (map (\<lambda>p. render_page env p scale) (take (nat (min (int (length pages)) max_pages)) pages)))
          \<and> ((\<forall>p \<in> set (take (nat (min (int (length pages)) max_pages)) pages). \<not> isl (render_page env p scale)) \<longrightarrow>
               length (pdf_to_images env pdf_bytes max_pages scale) = nat (min (int (length pages)) max_pages)
               \<and> (\<forall>i < nat (min (int (length pages)) max_pages).
                     render_page env (pages ! i) scale
                       = Inr (pdf_to_images env pdf_bytes max_pages scale ! i))))"
proof -
  have full: "map projr (takeWhile (\<lambda>r. \<not> isl r) (map f ps)) = map (\<lambda>p. projr (f p)) ps"
    if "\<forall>p \<in> set ps. \<not> isl (f p)" for f :: "'p \<Rightarrow> error + 'i" and ps
    using that by (induction ps) auto
  have a: "\<not> pdfium_available env \<longrightarrow> pdf_to_images env pdf_bytes max_pages scale = []"
    by (simp add: pdf_to_images_def)
  have b: "\<forall>e. open_document env pdf_bytes = Inl e \<longrightarrow> pdf_to_images env pdf_bytes max_pages scale = []"
    by (auto simp: pdf_to_images_def)
  have c: "pdf_to_images env pdf_bytes max_pages scale
            = map projr (takeWhile (\<lambda>r. \<not> isl r)
                (map (\<lambda>p. render_page env p scale) (take (nat (min (int (length pages)) max_pages)) pages)))"
    if "pdfium_available env" "open_document env pdf_bytes = Inr pages" for pages
    using that by (simp add: pdf_to_images_def render_loop_prefix)
  have d: "length (pdf_to_images env pdf_bytes max_pages scale) = nat (min (int (length pages)) max_pages)
           \<and> (\<forall>i < nat (min (int (length pages)) max_pages).
                 render_page env (pages ! i) scale
                   = Inr (pdf_to_images env pdf_bytes max_pages scale ! i))"
    if av: "pdfium_available env" and op: "open_document env pdf_bytes = Inr pages"
      and ok: "\<forall>p \<in> set (take (nat (min (int (length pages)) max_pages)) pages). \<not> isl (render_page env p scale)"
    for pages
  proof -
    have le: "nat (min (int (length pages)) max_pages) \<le> length pages" by simp
    have eq: "pdf_to_images env pdf_bytes max_pages scale
                = map (\<lambda>p. projr (render_page env p scale)) (take (nat (min (int (length pages)) max_pages)) pages)"
      using c [OF av op] full [OF ok] by simp
    have len: "length (pdf_to_images env pdf_bytes max_pages scale) = nat (min (int (length pages)) max_pages)"
      unfolding eq using le by simp
    have nth: "render_page env (pages ! i) scale = Inr (pdf_to_images env pdf_bytes max_pages scale ! i)"
      if i: "i < nat (min (int (length pages)) max_pages)" for i
    proof -
      from i le have "pages ! i \<in> set (take (nat (min (int (length pages)) max_pages)) pages)"
        by (metis in_set_conv_nth length_take min.absorb2 nth_take)
      with ok have "\<not> isl (render_page env (pages ! i) scale)" by blast
      moreover have "pdf_to_images env pdf_bytes max_pages scale ! i = projr (render_page env (pages ! i) scale)"
        unfolding eq using i le by simp
      ultimately show ?thesis by (cases "render_page env (pages ! i) scale") auto
    qed
    from len nth show ?thesis by blast
  qed
  from a b c d show ?thesis by blast
qed

theorem pdf_to_images_pages_witness:
  "pdf_to_images good_pdfium 0 default_max_pages default_scale = [10, 20, 30]
   \<and> pdf_to_images two_page_pdfium 0 default_max_pages default_scale = []
   \<and> pdf_to_images (good_pdfium\<lparr>pdfium_available := False\<rparr>) 0 default_max_pages default_scale = []
   \<and> length (pdf_to_images good_pdfium 0 default_max_pages default_scale) = 3"
  using pdf_to_images_pages [of good_pdfium 0 default_max_pages default_scale]
    pdf_to_images_pages [of two_page_pdfium 0 default_max_pages default_scale]
    pdf_to_images_pages [of "good_pdfium\<lparr>pdfium_available := False\<rparr>" 0 default_max_pages default_scale]
  by (simp add: good_pdfium_def two_page_pdfium_def default_max_pages_def)

theorem pdf_to_images_partial_counterexample:
  "render_page two_page_pdfium 2 default_scale = Inl OtherError
   \<and> pdf_to_images two_page_pdfium 1 default_max_pages default_scale = [10]
   \<and> pdf_to_images two_page_pdfium 1 default_max_pages default_scale \<noteq> []"
  by (simp add: two_page_pdfium_def pdf_to_images_def default_max_pages_def)

lemma contact_text_long: "contact_text \<noteq> []" "20 \<le> length (py_strip contact_text)"
  by (simp_all add: contact_text_def py_strip_def isspace_def)

lemma contact_text_rule_email:
  "map_of (extract_with_rules (Some contact_text)) ''email'' = Some (PStr ''bob@example.com'')"
  by code_simp

lemma name_only_not_default:
  "\<not> list_all is_default (map snd (model_dump (all_default_fields\<lparr>rf_name := ''Alice''\<rparr>)))"
  by (simp add: model_dump_def all_default_fields_def is_default_def)

subsection \<open>The rule extractor returns every key\<close>

lemma py_set_keys:
  "k \<in> set (map fst d) \<Longrightarrow> map fst (py_set d k v) = map fst d"
  by (simp add: py_set_def update_keys)

lemma set_if_match_keys:
  "k \<in> set (map fst d) \<Longrightarrow> map fst (set_if_match d k m) = map fst d"
  by (cases m) (simp_all add: set_if_match_def py_set_keys)

lemma rule_defaults_keys: "map fst rule_defaults = extraction_keys"
  by (simp add: rule_defaults_def comp_def)

lemma extraction_keys_mem:
  "''email'' \<in> set extraction_keys" "''phone'' \<in> set extraction_keys"
  "''linkedin'' \<in> set extraction_keys" "''github'' \<in> set extraction_keys"
  "''name'' \<in> set extraction_keys" "''highest_degree'' \<in> set extraction_keys"
  "''graduation_year'' \<in> set extraction_keys" "''technical_skills'' \<in> set extraction_keys"
  by (simp_all add: extraction_keys_def)

lemma extract_with_rules_keys:
  "map fst (extract_with_rules resume_text) = extraction_keys"
proof -
  define body where "body = (case resume_text of None \<Rightarrow> [] | Some t \<Rightarrow> t)"
  define lines where "lines = filter (\<lambda>line. line \<noteq> []) (map py_strip (py_splitlines body))"
  define d1 where "d1 = set_if_match rule_defaults ''email'' (re_search email_rx body)"
  define d2 where "d2 = (case re_search phone_rx body of
                    None \<Rightarrow> d1
                  | Some g \<Rightarrow> if 10 \<le> length (py_strip g)
                              then py_set d1 ''phone'' (PStr (py_strip g)) else d1)"
  define d3 where "d3 = set_if_match d2 ''linkedin'' (re_search linkedin_rx body)"
  define d4 where "d4 = set_if_match d3 ''github'' (re_search github_rx body)"
  define d5 where "d5 = set_if_match d4 ''name'' (find name_candidate (take 10 lines))"
  define d6 where "d6 = set_if_match d5 ''highest_degree''
                   (map_option snd (find (\<lambda>(key, val). py_contains key (py_lower body)) degree_map))"
  define d7 where "d7 = set_if_match d6 ''graduation_year'' (re_search year_rx body)"
  define d8 where "d8 = (case skills_section_of lines of
                    None \<Rightarrow> d7
                  | Some section \<Rightarrow>
                      if section = [] \<or> skill_tokens section = [] then d7
                      else py_set d7 ''technical_skills''
                             (PStr (py_join '', '' (skill_tokens section))))"
  have res: "extract_with_rules resume_text = d8"
    unfolding extract_with_rules_def Let_def d8_def d7_def d6_def d5_def d4_def d3_def
      d2_def d1_def lines_def body_def ..
  have k1: "map fst d1 = extraction_keys"
    by (simp add: d1_def set_if_match_keys rule_defaults_keys extraction_keys_mem)
  have k2: "map fst d2 = extraction_keys"
    by (simp add: d2_def k1 py_set_keys extraction_keys_mem split: option.split)
  have k3: "map fst d3 = extraction_keys"
    by (simp add: d3_def set_if_match_keys k2 extraction_keys_mem)
  have k4: "map fst d4 = extraction_keys"
    by (simp add: d4_def set_if_match_keys k3 extraction_keys_mem)
  have k5: "map fst d5 = extraction_keys"
    by (simp add: d5_def set_if_match_keys k4 extraction_keys_mem)
  have k6: "map fst d6 = extraction_keys"
    by (simp add: d6_def set_if_match_keys k5 extraction_keys_mem)
  have k7: "map fst d7 = extraction_keys"
    by (simp add: d7_def set_if_match_keys k6 extraction_keys_mem)
  have k8: "map fst d8 = extraction_keys"
    by (simp add: d8_def k7 py_set_keys extraction_keys_mem split: option.split)
  show ?thesis by (simp add: res k8)
qed

lemma distinct_extraction_keys: "distinct extraction_keys"
  by (simp add: extraction_keys_def)

text \<open>
  C6: for every input, the empty string and \<open>None\<close> included, the rule extractor returns
  a mapping whose keys are exactly the canonical extraction keys.  It is a function of
  its argument alone, every operation it uses is total on strings, and so it raises
  nothing and reads or writes nothing.
\<close>

theorem extract_with_rules_total:
  "map fst (extract_with_rules resume_text) = extraction_keys
   \<and> (\<forall>k \<in> set extraction_keys. \<exists>v. map_of (extract_with_rules resume_text) k = Some v)"
proof -
  have keys: "map fst (extract_with_rules resume_text) = extraction_keys"
    by (rule extract_with_rules_keys)
  have "\<exists>v. map_of (extract_with_rules resume_text) k = Some v" if "k \<in> set extraction_keys" for k
  proof -
    from that keys have "k \<in> fst ` set (extract_with_rules resume_text)"
      by (metis set_map)
    then show ?thesis
      by (metis map_of_eq_None_iff not_None_eq)
  qed
  with keys show ?thesis by blast
qed

theorem extract_with_rules_total_witness:
  "map fst (extract_with_rules None) = extraction_keys
   \<and> map fst (extract_with_rules (Some [])) = extraction_keys
   \<and> extract_with_rules (Some []) = rule_defaults
   \<and> map_of (extract_with_rules (Some contact_text)) ''email'' = Some (PStr ''bob@example.com'')"
proof -
  have a: "extract_with_rules (Some []) = rule_defaults" by code_simp
  note b = contact_text_rule_email
  from a b extract_with_rules_total [of None] extract_with_rules_total [of "Some []"]
  show ?thesis by blast
qed

subsection \<open>Backfilling the text-model result from the rule tier\<close>

lemma update_append_notin:
  "k \<notin> fst ` set pre \<Longrightarrow> AList.update k v (pre @ (k, d) # rest) = pre @ (k, v) # rest"
  by (induction pre) auto

lemma backfill_step_all_default:
  "distinct (map fst (pre @ rd)) \<Longrightarrow> map fst data = map fst rd
   \<Longrightarrow> list_all is_default (map snd data)
   \<Longrightarrow> foldl (\<lambda>d (k, v).
              case map_of d k of
                None \<Rightarrow> d
              | Some old \<Rightarrow> if is_default old \<or> \<not> truthy old then py_set d k v else d)
         (pre @ data) rd = pre @ rd"
proof (induction rd arbitrary: pre data)
  case Nil
  then show ?case by simp
next
  case (Cons kv rd)
  obtain k v where kv: "kv = (k, v)" by (cases kv)
  from Cons.prems(2) kv obtain d data' where data: "data = (k, d) # data'"
    and keys': "map fst data' = map fst rd"
    by (cases data) auto
  from Cons.prems(1) kv have notin: "k \<notin> fst ` set pre" by auto
  then have look: "map_of (pre @ data) k = Some d"
    by (simp add: data map_add_def map_of_eq_None_iff [THEN iffD2] split: option.split)
  from Cons.prems(3) data have dflt: "is_default d" and rest: "list_all is_default (map snd data')"
    by simp_all
  have upd: "py_set (pre @ data) k v = (pre @ [(k, v)]) @ data'"
    using notin by (simp add: py_set_def data update_append_notin)
  have dist: "distinct (map fst ((pre @ [(k, v)]) @ rd))"
    using Cons.prems(1) kv by simp
  show ?case
    using Cons.IH [OF dist keys' rest] look dflt upd kv by simp
qed

lemma backfill_all_default:
  assumes "distinct (map fst rd)" "map fst data = map fst rd" "list_all is_default (map snd data)"
  shows "backfill data rd = rd"
  using backfill_step_all_default [of "[]" rd data] assms by (simp add: backfill_def)

lemma model_dump_keys: "map fst (model_dump r) = extraction_keys"
  by (simp add: model_dump_def extraction_keys_def)

text \<open>
  C3: the field-by-field backfill does not hold of the code.  The loop that merges the
  rule tier's values into the fields the text model left at a default is entered only
  when \<^emph>\<open>every\<close> value of the result is a default (\<open>'Not Found'\<close>, \<open>0.0\<close> or \<open>''\<close>),
  although the comment on that test speaks of a result that is empty or mostly defaults.
  What the code does is this: when every value is a default, every field is taken from
  the rule extractor; when at least one value is not a default, the result is returned
  as the model gave it and the rule extractor is not called at all, so a field at its
  default stays there even where the rule tier would recover a value.  The instance
  after the theorem has 18 of 19 fields at their default and an e-mail address in the
  text that the rule tier finds; the returned e-mail is still \<open>'Not Found'\<close>.
\<close>

theorem tier2_backfill_all_or_nothing:
  assumes "resume_text \<noteq> []" and "20 \<le> length (py_strip resume_text)"
    and "langchain_available env"
    and "chain_invoke env (take 12000 resume_text) = Inr result"
  shows "(list_all is_default (map snd (model_dump result)) \<longrightarrow>
            snd (extract_with_langchain env resume_text) = extract_with_rules (Some resume_text))
       \<and> (\<not> list_all is_default (map snd (model_dump result)) \<longrightarrow>
            extract_with_langchain env resume_text
              = ([Call_LLM (take 12000 resume_text)], model_dump result))"
proof -
  have ne: "model_dump result \<noteq> []" by (simp add: model_dump_def)
  have bf: "backfill (model_dump result) (extract_with_rules (Some resume_text))
              = extract_with_rules (Some resume_text)"
    if "list_all is_default (map snd (model_dump result))"
    using that
    by (intro backfill_all_default)
      (simp_all add: extract_with_rules_keys model_dump_keys distinct_extraction_keys)
  show ?thesis
    using assms ne bf by (simp add: extract_with_langchain_def Let_def)
qed

theorem tier2_backfill_all_or_nothing_witness:
  "snd (extract_with_langchain blank_llm contact_text) = extract_with_rules (Some contact_text)
   \<and> extract_with_langchain name_only_llm contact_text
       = ([Call_LLM contact_text], model_dump (all_default_fields\<lparr>rf_name := ''Alice''\<rparr>))"
proof -
  have len: "contact_text \<noteq> []" "20 \<le> length (py_strip contact_text)"
    by (simp_all add: contact_text_def py_strip_def isspace_def)
  have tk: "take 12000 contact_text = contact_text" by (simp add: contact_text_def)
  have d1: "list_all is_default (map snd (model_dump all_default_fields))"
    by (simp add: model_dump_def all_default_fields_def is_default_def)
  have d2: "\<not> list_all is_default (map snd (model_dump (all_default_fields\<lparr>rf_name := ''Alice''\<rparr>)))"
    by (simp add: model_dump_def all_default_fields_def is_default_def)
  have a: "snd (extract_with_langchain blank_llm contact_text) = extract_with_rules (Some contact_text)"
    using tier2_backfill_all_or_nothing [of contact_text blank_llm all_default_fields] len d1
    by (simp add: blank_llm_def)
  have b: "extract_with_langchain name_only_llm contact_text
       = ([Call_LLM contact_text], model_dump (all_default_fields\<lparr>rf_name := ''Alice''\<rparr>))"
    using tier2_backfill_all_or_nothing
      [of contact_text name_only_llm "all_default_fields\<lparr>rf_name := ''Alice''\<rparr>"] len d2 tk
    by (simp add: name_only_llm_def)
  from a b show ?thesis by blast
qed

theorem tier2_backfill_counterexample:
  "map_of (model_dump (all_default_fields\<lparr>rf_name := ''Alice''\<rparr>)) ''email'' = Some (PStr ''Not Found'')
   \<and> is_default (PStr ''Not Found'')
   \<and> map_of (extract_with_rules (Some contact_text)) ''email'' = Some (PStr ''bob@example.com'')
   \<and> \<not> is_default (PStr ''bob@example.com'')
   \<and> map_of (snd (extract_with_langchain name_only_llm contact_text)) ''email''
       = Some (PStr ''Not Found'')"
proof -
  have a: "map_of (model_dump (all_default_fields\<lparr>rf_name := ''Alice''\<rparr>)) ''email''
             = Some (PStr ''Not Found'')"
    by (simp add: model_dump_def all_default_fields_def)
  have b: "is_default (PStr ''Not Found'')" "\<not> is_default (PStr ''bob@example.com'')"
    by (simp_all add: is_default_def)
  have c: "snd (extract_with_langchain name_only_llm contact_text)
             = model_dump (all_default_fields\<lparr>rf_name := ''Alice''\<rparr>)"
  proof -
    have "model_dump (all_default_fields\<lparr>rf_name := ''Alice''\<rparr>) \<noteq> []"
      by (simp add: model_dump_def)
    with contact_text_long name_only_not_default show ?thesis
      by (simp add: extract_with_langchain_def name_only_llm_def Let_def)
  qed
  from a b c contact_text_rule_email show ?thesis by simp
qed

subsection \<open>The phone field of the rule extractor\<close>

lemma map_of_py_set_other: "k \<noteq> k' \<Longrightarrow> map_of (py_set d k v) k' = map_of d k'"
  by (simp add: py_set_def update_conv')

lemma map_of_set_if_match_other:
  "k \<noteq> k' \<Longrightarrow> map_of (set_if_match d k m) k' = map_of d k'"
  by (cases m) (simp_all add: set_if_match_def map_of_py_set_other)

lemma map_of_py_set_same: "map_of (py_set d k v) k = Some v"
  by (simp add: py_set_def update_conv')

lemma rule_defaults_phone: "map_of rule_defaults ''phone'' = Some (PStr ''Not Found'')"
  by (simp add: rule_defaults_def extraction_keys_def)

text \<open>
  C7 (as amended): the phone field is decided by the first match of the phone pattern
  in the text alone.  When that match, with the whitespace at its ends removed, is at
  least 10 characters long (digits and the separators inside it counted alike), the
  field is that trimmed match; when there is no match or the trimmed first match is
  shorter, the field keeps the sentinel, and later matches are not looked at.
\<close>

theorem phone_field_first_match:
  "map_of (extract_with_rules resume_text) ''phone'' =
     Some (PStr (case re_search phone_rx (case resume_text of None \<Rightarrow> [] | Some t \<Rightarrow> t) of
                   None \<Rightarrow> ''Not Found''
                 | Some g \<Rightarrow> if 10 \<le> length (py_strip g) then py_strip g else ''Not Found''))"
proof -
  define body where "body = (case resume_text of None \<Rightarrow> [] | Some t \<Rightarrow> t)"
  define lines where "lines = filter (\<lambda>line. line \<noteq> []) (map py_strip (py_splitlines body))"
  define d1 where "d1 = set_if_match rule_defaults ''email'' (re_search email_rx body)"
  define d2 where "d2 = (case re_search phone_rx body of
                    None \<Rightarrow> d1
                  | Some g \<Rightarrow> if 10 \<le> length (py_strip g)
                              then py_set d1 ''phone'' (PStr (py_strip g)) else d1)"
  define d3 where "d3 = set_if_match d2 ''linkedin'' (re_search linkedin_rx body)"
  define d4 where "d4 = set_if_match d3 ''github'' (re_search github_rx body)"
  define d5 where "d5 = set_if_match d4 ''name'' (find name_candidate (take 10 lines))"
  define d6 where "d6 = set_if_match d5 ''highest_degree''
                   (map_option snd (find (\<lambda>(key, val). py_contains key (py_lower body)) degree_map))"
  define d7 where "d7 = set_if_match d6 ''graduation_year'' (re_search year_rx body)"
  define d8 where "d8 = (case skills_section_of lines of
                    None \<Rightarrow> d7
                  | Some section \<Rightarrow>
                      if section = [] \<or> skill_tokens section = [] then d7
                      else py_set d7 ''technical_skills''
                             (PStr (py_join '', '' (skill_tokens section))))"
  have res: "extract_with_rules resume_text = d8"
    unfolding extract_with_rules_def Let_def d8_def d7_def d6_def d5_def d4_def d3_def
      d2_def d1_def lines_def body_def ..
  have p1: "map_of d1 ''phone'' = Some (PStr ''Not Found'')"
    by (simp add: d1_def map_of_set_if_match_other rule_defaults_phone)
  have p2: "map_of d2 ''phone'' =
     Some (PStr (case re_search phone_rx body of
                   None \<Rightarrow> ''Not Found''
                 | Some g \<Rightarrow> if 10 \<le> length (py_strip g) then py_strip g else ''Not Found''))"
    by (simp add: d2_def p1 map_of_py_set_same split: option.split)
  have p7: "map_of d7 ''phone'' = map_of d2 ''phone''"
    by (simp add: d7_def d6_def d5_def d4_def d3_def map_of_set_if_match_other)
  have p8: "map_of d8 ''phone'' = map_of d7 ''phone''"
    by (simp add: d8_def map_of_py_set_other split: option.split)
  show ?thesis
    unfolding res p8 p7 p2 body_def ..
qed

theorem phone_field_first_match_witness:
  "map_of (extract_with_rules (Some phone_text)) ''phone'' = Some (PStr ''555-123-4567'')
   \<and> re_search phone_rx phone_text = Some ''555-123-4567 ''"
proof -
  have m: "re_search phone_rx phone_text = Some ''555-123-4567 ''" by code_simp
  have s: "py_strip ''555-123-4567 '' = ''555-123-4567''" by code_simp
  from phone_field_first_match [of "Some phone_text"] m s show ?thesis by simp
qed

theorem phone_field_counterexample:
  "map_of (extract_with_rules (Some short_phone_text)) ''phone'' = Some (PStr ''123-456-78'')
   \<and> PStr ''123-456-78'' \<noteq> PStr ''Not Found''
   \<and> length (filter isdigit ''123-456-78'') = 8"
proof -
  have a: "map_of (extract_with_rules (Some short_phone_text)) ''phone'' = Some (PStr ''123-456-78'')"
    by code_simp
  have b: "length (filter isdigit ''123-456-78'') = 8"
    by (simp add: isdigit_def)
  from a b show ?thesis by simp
qed

subsection \<open>Validation is idempotent\<close>

lemma py_strip_noop:
  assumes "s = [] \<or> (\<not> isspace (hd s) \<and> \<not> isspace (last s))"
  shows "py_strip s = s"
proof (cases "s = []")
  case True
  then show ?thesis by (simp add: py_strip_def)
next
  case False
  with assms have h: "\<not> isspace (hd s)" and l: "\<not> isspace (last s)" by simp_all
  from False h have a: "dropWhile isspace s = s"
    by (cases s) simp_all
  from False l have b: "dropWhile isspace (rev s) = rev s"
    by (cases "rev s") (simp_all add: last_rev [symmetric] hd_rev)
  show ?thesis by (simp add: py_strip_def a b)
qed

lemma py_strip_idem: "py_strip (py_strip s) = py_strip s"
  using py_strip_ends [of s] by (intro py_strip_noop) blast

lemma strip_if_str_idem: "strip_if_str (strip_if_str v) = strip_if_str v"
  by (cases v) (simp_all add: strip_if_str_def py_strip_idem)

lemma cls_rep_done: "cls_rep P 0 (Some 0) p s = [(p, s)]"
  by (cases s) simp_all

lemma first_match_year:
  "first_match year_rx p s = (if year_at s then Some (Some (s ! 3), drop 4 s) else None)"
  by (cases s rule: year_at.cases)
    (auto simp add: first_match_def year_rx_def lit_def one_of_def rep_of_def cls_rep_done)

lemma search_from_year:
  "search_from year_rx p s = Some y \<Longrightarrow> year_at y \<and> length y = 4"
proof (induction s arbitrary: p)
  case Nil
  then show ?case by (simp add: first_match_year)
next
  case (Cons c cs)
  show ?case
  proof (cases "year_at (c # cs)")
    case True
    then obtain a b e d rest where s: "c # cs = a # b # e # d # rest"
      by (cases "c # cs" rule: year_at.cases) auto
    from Cons.prems True have "y = matched_text (c # cs) (Some ((c # cs) ! 3), drop 4 (c # cs))"
      by (simp add: first_match_year)
    then have "y = [a, b, e, d]"
      unfolding s by (simp add: matched_text_def)
    with True s show ?thesis by simp
  next
    case False
    with Cons.prems have "search_from year_rx (Some c) cs = Some y"
      by (simp add: first_match_year)
    then show ?thesis by (rule Cons.IH)
  qed
qed

lemma year_shape:
  assumes "year_at y" "length y = 4"
  shows "re_search year_rx y = Some y" and "py_strip y = y"
proof -
  from assms obtain a b c d where y: "y = [a, b, c, d]"
    by (cases y rule: year_at.cases) auto
  from assms(1) show "re_search year_rx y = Some y"
    unfolding y by (simp add: re_search_def first_match_year matched_text_def)
  have dg: "\<not> isspace k" if "isdigit k" for k
    using that by (auto simp add: isdigit_def isspace_def)
  from assms(1) have a: "a = CHR ''1'' \<or> a = CHR ''2''" and d: "isdigit d"
    unfolding y by auto
  from d have nd: "\<not> isspace d" by (rule dg)
  from a have "isdigit a" by (auto simp add: isdigit_def)
  then have "\<not> isspace a" by (rule dg)
  with nd have "\<not> isspace (hd y) \<and> \<not> isspace (last y)"
    unfolding y by simp
  then show "py_strip y = y" by (intro py_strip_noop) simp
qed

lemma validate_year_shape:
  "\<exists>y. validate_year s v = PStr y \<and> (y = [] \<or> (year_at y \<and> length y = 4))"
proof (cases "py_str s v")
  case (Inl e)
  then show ?thesis by (simp add: validate_year_def strip_if_str_def py_strip_def)
next
  case (Inr t)
  show ?thesis
  proof (cases "re_search year_rx t")
    case None
    with Inr show ?thesis by (simp add: validate_year_def strip_if_str_def py_strip_def)
  next
    case (Some y)
    then have ya: "year_at y \<and> length y = 4"
      by (simp add: re_search_def search_from_year)
    then have "py_strip y = y" by (simp add: year_shape)
    with Inr Some ya show ?thesis by (simp add: validate_year_def strip_if_str_def)
  qed
qed

lemma validate_year_idem: "validate_year s (validate_year s v) = validate_year s v"
proof -
  from validate_year_shape [of s v] obtain y
    where y: "validate_year s v = PStr y" and sh: "y = [] \<or> (year_at y \<and> length y = 4)"
    by blast
  from sh have "validate_year s (PStr y) = PStr y"
  proof
    assume "y = []"
    then show ?thesis
      by (simp add: validate_year_def py_str_def re_search_def first_match_year
          strip_if_str_def py_strip_def)
  next
    assume "year_at y \<and> length y = 4"
    then show ?thesis
      by (simp add: validate_year_def py_str_def year_shape strip_if_str_def)
  qed
  with y show ?thesis by simp
qed

lemma validate_experience_float: "\<exists>f. validate_experience s v = PFloat f"
  by (simp add: validate_experience_def split: pyval.split sum.split list.split)

lemma validate_experience_idem:
  "validate_experience s (validate_experience s v) = validate_experience s v"
proof -
  from validate_experience_float [of s v] obtain f where "validate_experience s v = PFloat f"
    by blast
  then show ?thesis by (simp add: validate_experience_def)
qed

lemma validate_field_idem: "validate_field s k (validate_field s k v) = validate_field s k v"
  by (simp add: validate_field_def validate_experience_idem validate_year_idem strip_if_str_idem)

lemma update_fresh: "k \<notin> fst ` set acc \<Longrightarrow> AList.update k v acc = acc @ [(k, v)]"
  by (induction acc) auto

lemma foldl_py_set_fresh:
  "distinct ks \<Longrightarrow> set ks \<inter> fst ` set acc = {}
   \<Longrightarrow> foldl (\<lambda>clean k. py_set clean k (f k)) acc ks = acc @ map (\<lambda>k. (k, f k)) ks"
proof (induction ks arbitrary: acc)
  case Nil
  then show ?case by simp
next
  case (Cons k ks)
  from Cons.prems have fresh: "k \<notin> fst ` set acc" by auto
  then have step: "py_set acc k (f k) = acc @ [(k, f k)]"
    by (simp add: py_set_def update_fresh)
  from Cons.prems have "set ks \<inter> fst ` set (acc @ [(k, f k)]) = {}" by auto
  with Cons.prems have
    "foldl (\<lambda>clean k. py_set clean k (f k)) (acc @ [(k, f k)]) ks
       = (acc @ [(k, f k)]) @ map (\<lambda>k. (k, f k)) ks"
    by (intro Cons.IH) simp_all
  with step show ?case by simp
qed

lemma distinct_validate_keys: "distinct validate_keys"
  by (simp add: validate_keys_def)

lemma validate_resume_data_table:
  "validate_resume_data s x
     = map (\<lambda>k. (k, validate_field s k (py_get x k (PStr ''Not Found'')))) validate_keys"
  using foldl_py_set_fresh [of validate_keys "[]"
      "\<lambda>k. validate_field s k (py_get x k (PStr ''Not Found''))"]
  by (simp add: validate_resume_data_def distinct_validate_keys)

lemma py_get_table: "k \<in> set ks \<Longrightarrow> py_get (map (\<lambda>k. (k, f k)) ks) k d = f k"
  by (induction ks) (auto simp add: py_get_def)

text \<open>
  C4: validating an already validated record changes nothing, for every raw mapping and
  every behaviour of \<open>str\<close> on the values that are not strings.
\<close>

theorem validate_idempotent:
  "validate_resume_data s (validate_resume_data s x) = validate_resume_data s x"
proof -
  let ?f = "\<lambda>k. validate_field s k (py_get x k (PStr ''Not Found''))"
  have "validate_resume_data s (validate_resume_data s x)
          = map (\<lambda>k. (k, validate_field s k
                     (py_get (map (\<lambda>k. (k, ?f k)) validate_keys) k (PStr ''Not Found''))))
              validate_keys"
    by (simp only: validate_resume_data_table)
  also have "\<dots> = map (\<lambda>k. (k, validate_field s k (?f k))) validate_keys"
    by (rule map_cong) (simp_all add: py_get_table)
  also have "\<dots> = map (\<lambda>k. (k, ?f k)) validate_keys"
    by (simp add: validate_field_idem)
  finally show ?thesis by (simp only: validate_resume_data_table)
qed

theorem validate_idempotent_witness:
  "validate_resume_data demo_str (validate_resume_data demo_str raw_record)
     = validate_resume_data demo_str raw_record
   \<and> py_get (validate_resume_data demo_str raw_record) ''name'' PNone = PStr ''Jane Doe''
   \<and> py_get (validate_resume_data demo_str raw_record) ''graduation_year'' PNone = PStr ''2019''
   \<and> py_get (validate_resume_data demo_str raw_record) ''cgpa'' PNone = PNone
   \<and> map fst (validate_resume_data demo_str raw_record) = validate_keys"
proof -
  have get: "py_get (validate_resume_data demo_str raw_record) k PNone
               = validate_field demo_str k (py_get raw_record k (PStr ''Not Found''))"
    if "k \<in> set validate_keys" for k
    using that by (simp add: validate_resume_data_table py_get_table)
  have a: "validate_field demo_str ''name'' (py_get raw_record ''name'' (PStr ''Not Found''))
             = PStr ''Jane Doe''"
    by code_simp
  have b: "validate_field demo_str ''graduation_year''
             (py_get raw_record ''graduation_year'' (PStr ''Not Found'')) = PStr ''2019''"
    by code_simp
  have c: "validate_field demo_str ''cgpa'' (py_get raw_record ''cgpa'' (PStr ''Not Found''))
             = PNone"
    by code_simp
  have d: "map fst (validate_resume_data demo_str raw_record) = validate_keys"
    by (simp add: validate_resume_data_table comp_def)
  have k: "''name'' \<in> set validate_keys" "''graduation_year'' \<in> set validate_keys"
    "''cgpa'' \<in> set validate_keys"
    by (simp_all add: validate_keys_def)
  from a b c d k validate_idempotent [of demo_str raw_record] show ?thesis
    by (simp add: get)
qed

subsection \<open>The experience field of a validated record\<close>













subsection \<open>Merging into the persisted table\<close>

lemma keep_last_index:
  "keep_last key rs = map ((!) rs) (filter (last_of_identity key rs) [0..<length rs])"
proof (induction rs)
  case Nil
  show ?case by simp
next
  case (Cons r rs)
  have idx: "[0..<length (r # rs)] = 0 # map Suc [0..<length rs]"
    by (simp add: upt_conv_Cons map_Suc_upt del: upt_Suc)
  have sh: "filter (last_of_identity key (r # rs)) (map Suc [0..<length rs])
              = map Suc (filter (last_of_identity key rs) [0..<length rs])"
  proof -
    have "last_of_identity key (r # rs) \<circ> Suc = last_of_identity key rs"
      by (rule ext) (simp add: last_of_identity_def)
    then show ?thesis by (simp add: filter_map)
  qed
  have hd0: "last_of_identity key (r # rs) 0 \<longleftrightarrow> key r \<notin> set (map key rs)"
    by (simp add: last_of_identity_def)
  have nth: "map ((!) (r # rs)) (map Suc is) = map ((!) rs) is" for "is"
    by simp
  show ?case
    unfolding idx using Cons.IH sh hd0 by (simp add: nth)
qed

lemma keep_last_subset: "set (keep_last key rs) \<subseteq> set rs"
  by (induction rs) auto

lemma keep_last_keys: "set (map key (keep_last key rs)) = set (map key rs)"
  by (induction rs) auto

lemma keep_last_distinct: "distinct (map key (keep_last key rs))"
proof (induction rs)
  case Nil
  show ?case by simp
next
  case (Cons r rs)
  have "key r \<notin> set (map key (keep_last key rs))" if "key r \<notin> set (map key rs)"
    using that keep_last_keys [of key rs] by simp
  with Cons.IH show ?case by simp
qed

lemma remdups_first_cons:
  "rev (remdups (rev (c # ys))) = c # rev (remdups (rev (filter (\<lambda>x. x \<noteq> c) ys)))"
proof (induction ys rule: rev_induct)
  case Nil
  show ?case by simp
next
  case (snoc y ys)
  then show ?case by (cases "y = c") auto
qed

lemma union_columns_step:
  "foldl (\<lambda>acc c. if c \<in> set acc then acc else acc @ [c]) acc cs
     = acc @ rev (remdups (rev (filter (\<lambda>c. c \<notin> set acc) cs)))"
proof (induction cs arbitrary: acc)
  case Nil
  show ?case by simp
next
  case (Cons c cs)
  let ?f = "\<lambda>acc c. if c \<in> set acc then acc else acc @ [c]"
  show ?case
  proof (cases "c \<in> set acc")
    case True
    then show ?thesis using Cons.IH [of acc] by simp
  next
    case False
    have f: "filter (\<lambda>x. x \<notin> set (acc @ [c])) cs
               = filter (\<lambda>x. x \<noteq> c) (filter (\<lambda>x. x \<notin> set acc) cs)"
      by (induction cs) auto
    from False have "foldl ?f acc (c # cs) = foldl ?f (acc @ [c]) cs" by simp
    also have "\<dots> = (acc @ [c]) @ rev (remdups (rev (filter (\<lambda>x. x \<notin> set (acc @ [c])) cs)))"
      by (rule Cons.IH)
    also have "\<dots> = acc @ c # rev (remdups (rev (filter (\<lambda>x. x \<noteq> c)
                        (filter (\<lambda>x. x \<notin> set acc) cs))))"
      by (simp only: f append_assoc append_Cons append_Nil)
    also have "\<dots> = acc @ rev (remdups (rev (c # filter (\<lambda>x. x \<notin> set acc) cs)))"
      by (simp only: remdups_first_cons)
    also from False have "c # filter (\<lambda>x. x \<notin> set acc) cs = filter (\<lambda>x. x \<notin> set acc) (c # cs)"
      by simp
    finally show ?thesis .
  qed
qed

lemma union_columns_set:
  "distinct (union_columns a b) \<and> set (union_columns a b) = set a \<union> set b"
  by (auto simp add: union_columns_def union_columns_step)

lemma first_occurrences_distinct: "distinct xs \<Longrightarrow> rev (remdups (rev xs)) = xs"
  by (simp add: distinct_remdups_id)

lemma union_columns_distinct_left:
  assumes "distinct a" and "distinct b"
  shows "union_columns a b = a @ filter (\<lambda>c. c \<notin> set a) b"
proof -
  let ?f = "\<lambda>acc c. if c \<in> set acc then acc else acc @ [c]"
  have "foldl ?f [] a = a"
    using assms(1) by (simp add: union_columns_step first_occurrences_distinct)
  then have "union_columns a b = foldl ?f a b"
    by (simp add: union_columns_def)
  also have "\<dots> = a @ rev (remdups (rev (filter (\<lambda>c. c \<notin> set a) b)))"
    by (rule union_columns_step)
  also have "rev (remdups (rev (filter (\<lambda>c. c \<notin> set a) b))) = filter (\<lambda>c. c \<notin> set a) b"
    using assms(2) by (intro first_occurrences_distinct) simp
  finally show ?thesis .
qed

lemma cell_of_reindexed:
  "c \<in> set cols \<Longrightarrow> cell_of cols (map f cols) c = f c"
proof -
  assume "c \<in> set cols"
  then have "map_of (zip cols (map f cols)) c = Some (f c)"
    by (induction cols) auto
  then show ?thesis by (simp add: cell_of_def)
qed

lemma fill_cell_some: "None \<notin> set (map (fill_cell t) row)"
  by (auto simp add: fill_cell_def split: option.splits)

lemma restrict_columns_wf:
  assumes "wf_frame df" and "case sel of None \<Rightarrow> True | Some l \<Rightarrow> distinct l"
  shows "wf_frame (restrict_columns df sel)"
  using assms
  by (auto simp add: restrict_columns_def wf_frame_def reindex_def list_all_iff
      split: option.splits)

lemma merged_table_columns:
  "columns (merged_table st new)
     = union_columns (columns (case st of Table t \<Rightarrow> t | _ \<Rightarrow> empty_frame)) (columns new)"
  by (simp add: merged_table_def Let_def fillna_def drop_duplicates_def concat_frames_def
      reindex_def)

lemma merged_table_rows:
  assumes "old = (case st of Table t \<Rightarrow> t | _ \<Rightarrow> empty_frame)"
    and "cols = union_columns (columns old) (columns new)"
    and "combined = map (\<lambda>r. map (cell_of (columns old) r) cols) (rows old)
                      @ map (\<lambda>r. map (cell_of (columns new) r) cols) (rows new)"
  shows "rows (merged_table st new)
     = map (map (fill_cell ''Not Found''))
         (if ''resume_id'' \<in> set cols
          then keep_last (\<lambda>row. map (cell_of cols row) [''resume_id'']) combined
          else if ''file_name'' \<in> set cols \<and> ''upload_date'' \<in> set cols
          then keep_last (\<lambda>row. map (cell_of cols row) [''file_name'', ''upload_date'']) combined
          else combined)"
proof -
  have id: "identity_of cs ks = (\<lambda>row. map (cell_of cs row) ks)"
    for cs ks :: "string list"
    by (rule ext) (simp add: identity_of_def)
  show ?thesis
    unfolding assms
    by (simp add: merged_table_def Let_def fillna_def drop_duplicates_def concat_frames_def
        reindex_def id)
qed

text \<open>
  C1: in merge mode \<open>save_to_excel\<close> writes, at the path it returns, the table whose
  columns are those of the persisted table (none when the file is absent or unreadable)
  followed by the new columns not among them, and whose rows are the persisted rows
  followed by the new rows, each taken over these columns (a cell of a column the row's
  table lacks is missing), with the duplicates dropped: a row is kept exactly when no
  later row has its identity, so the rows kept have distinct identities, every identity
  is still there, and the order is that of the rows kept.  The identity of a row is its
  \<open>resume_id\<close> cell when that column exists, and else its \<open>file_name\<close> and \<open>upload_date\<close>
  cells when both columns exist; when neither is available nothing is dropped.  Every
  missing cell of the result is filled with \<open>'Not Found'\<close>.  Tables are taken with
  distinct column labels and one cell per column in each row, and the result is such a
  table again.
\<close>

theorem merge_keeps_last:
  assumes new_wf: "wf_frame df"
    and sel_wf: "case selected_columns of None \<Rightarrow> True | Some l \<Rightarrow> distinct l"
    and old_wf: "case files path of Table t \<Rightarrow> wf_frame t | _ \<Rightarrow> True"
    and path: "path = (case out_path of None \<Rightarrow> default_path | Some p \<Rightarrow> p)"
    and old: "old = (case files path of Table t \<Rightarrow> t | _ \<Rightarrow> empty_frame)"
    and new: "new = restrict_columns df selected_columns"
    and cols: "cols = union_columns (columns old) (columns new)"
    and combined: "combined = map (\<lambda>r. map (cell_of (columns old) r) cols) (rows old)
                                @ map (\<lambda>r. map (cell_of (columns new) r) cols) (rows new)"
    and dedup: "dedup \<longleftrightarrow> ''resume_id'' \<in> set cols
                          \<or> (''file_name'' \<in> set cols \<and> ''upload_date'' \<in> set cols)"
    and key_cols: "key_cols = (if ''resume_id'' \<in> set cols then [''resume_id'']
                               else [''file_name'', ''upload_date''])"
    and kept: "kept = (if dedup
                       then map ((!) combined)
                              (filter (last_of_identity (\<lambda>row. map (cell_of cols row) key_cols) combined)
                                 [0..<length combined])
                       else combined)"
  shows "\<exists>written.
           save_to_excel files df out_path selected_columns True
             = (files(path := Table written), path)
         \<and> columns written = cols
         \<and> cols = columns old @ filter (\<lambda>c. c \<notin> set (columns old)) (columns new)
         \<and> rows written = map (map (fill_cell ''Not Found'')) kept
         \<and> (dedup \<longrightarrow>
              distinct (map (\<lambda>row. map (cell_of cols row) key_cols) kept)
              \<and> set (map (\<lambda>row. map (cell_of cols row) key_cols) kept)
                  = set (map (\<lambda>row. map (cell_of cols row) key_cols) combined)
              \<and> map (\<lambda>row. map (cell_of cols row) key_cols) combined
                  = map (\<lambda>r. map (cell_of (columns old) r) key_cols) (rows old)
                    @ map (\<lambda>r. map (cell_of (columns new) r) key_cols) (rows new))
         \<and> (\<forall>row \<in> set (rows written). None \<notin> set row)
         \<and> wf_frame written"
proof -
  define written where "written = merged_table (files path) new"
  let ?key = "\<lambda>row. map (cell_of cols row) key_cols"
  have saved: "save_to_excel files df out_path selected_columns True
                 = (files(path := Table written), path)"
    by (simp add: save_to_excel_def Let_def path new written_def)
  have wcols: "columns written = cols"
    by (simp add: written_def merged_table_columns cols old)
  have old_d: "distinct (columns old)"
    using old_wf by (cases "files path") (simp_all add: old wf_frame_def empty_frame_def)
  have new_d: "distinct (columns new)"
    using restrict_columns_wf [OF new_wf sel_wf] by (simp add: new wf_frame_def)
  have order: "cols = columns old @ filter (\<lambda>c. c \<notin> set (columns old)) (columns new)"
    unfolding cols using old_d new_d by (rule union_columns_distinct_left)
  have kept_eq: "kept = (if ''resume_id'' \<in> set cols
          then keep_last (\<lambda>row. map (cell_of cols row) [''resume_id'']) combined
          else if ''file_name'' \<in> set cols \<and> ''upload_date'' \<in> set cols
          then keep_last (\<lambda>row. map (cell_of cols row) [''file_name'', ''upload_date'']) combined
          else combined)"
    by (simp add: kept dedup key_cols keep_last_index)
  have wrows: "rows written = map (map (fill_cell ''Not Found'')) kept"
    unfolding written_def kept_eq using old cols combined by (rule merged_table_rows)
  have kept_dedup: "kept = keep_last ?key combined" if dedup
    using that by (simp add: kept keep_last_index)
  have keys_in: "set key_cols \<subseteq> set cols" if dedup
    using that by (auto simp add: dedup key_cols)
  have key_row: "?key (map f cols) = map f key_cols" if dedup for f :: "string \<Rightarrow> 'a cell option"
    using keys_in [OF that] by (simp add: cell_of_reindexed subset_iff)
  have ids: "map ?key combined
               = map (\<lambda>r. map (cell_of (columns old) r) key_cols) (rows old)
                 @ map (\<lambda>r. map (cell_of (columns new) r) key_cols) (rows new)" if dedup
    unfolding combined using key_row [OF that] by (simp add: comp_def)
  have filled: "\<forall>row \<in> set (rows written). None \<notin> set row"
    unfolding wrows using fill_cell_some by auto
  have sub: "set kept \<subseteq> set combined"
    unfolding kept_eq by (simp add: keep_last_subset)
  have len: "length row = length cols" if "row \<in> set combined" for row
    using that unfolding combined by auto
  have wf: "wf_frame written"
    unfolding wf_frame_def wcols wrows using union_columns_set [of "columns old" "columns new"] sub len
    by (auto simp add: cols list_all_iff)
  have dd: "dedup \<longrightarrow>
              distinct (map ?key kept)
              \<and> set (map ?key kept) = set (map ?key combined)
              \<and> map ?key combined
                  = map (\<lambda>r. map (cell_of (columns old) r) key_cols) (rows old)
                    @ map (\<lambda>r. map (cell_of (columns new) r) key_cols) (rows new)"
  proof
    assume d: dedup
    show "distinct (map ?key kept)
              \<and> set (map ?key kept) = set (map ?key combined)
              \<and> map ?key combined
                  = map (\<lambda>r. map (cell_of (columns old) r) key_cols) (rows old)
                    @ map (\<lambda>r. map (cell_of (columns new) r) key_cols) (rows new)"
      unfolding kept_dedup [OF d]
      using keep_last_distinct [of ?key combined] keep_last_keys [of ?key combined] ids [OF d]
      by blast
  qed
  from saved wcols order wrows dd filled wf show ?thesis by blast
qed

theorem merge_keeps_last_witness:
  "save_to_excel stored_old new_rows None None True
     = (stored_old(default_path :=
          Table \<lparr>columns = [''resume_id'', ''name'', ''email''],
                 rows = [[Some (Text ''B''), Some (Text ''Bob''), Some (Text ''Not Found'')],
                         [Some (Text ''A''), Some (Text ''New''), Some (Text ''Not Found'')]]\<rparr>),
        default_path)"
proof -
  have new_wf: "wf_frame new_rows"
    by (simp add: wf_frame_def new_rows_def)
  have old_wf: "case stored_old default_path of Table t \<Rightarrow> wf_frame t | _ \<Rightarrow> True"
    by (simp add: stored_old_def wf_frame_def)
  have sel_wf: "case None :: string list option of None \<Rightarrow> True | Some l \<Rightarrow> distinct l"
    by simp
  have p: "default_path = (case None :: string option of None \<Rightarrow> default_path | Some p \<Rightarrow> p)"
    by simp
  from merge_keeps_last [where files = stored_old and df = new_rows and out_path = None
      and selected_columns = None and path = default_path,
      OF new_wf sel_wf old_wf p refl refl refl refl refl refl refl]
  obtain written where
    saved: "save_to_excel stored_old new_rows None None True
              = (stored_old(default_path := Table written), default_path)"
    and cols: "columns written
              = union_columns
                  (columns (case stored_old default_path of Table t \<Rightarrow> t | _ \<Rightarrow> empty_frame))
                  (columns (restrict_columns new_rows None))"
    and filled: "\<forall>row \<in> set (rows written). None \<notin> set row"
    by blast
  have c: "columns written = [''resume_id'', ''name'', ''email'']"
    unfolding cols by code_simp
  have "rows (merged_table (stored_old default_path) new_rows)
          = [[Some (Text ''B''), Some (Text ''Bob''), Some (Text ''Not Found'')],
             [Some (Text ''A''), Some (Text ''New''), Some (Text ''Not Found'')]]"
    by code_simp
  moreover from saved have "written = merged_table (stored_old default_path) new_rows"
    by (simp add: save_to_excel_def Let_def restrict_columns_def fun_eq_iff split: if_splits)
  ultimately have r: "rows written
          = [[Some (Text ''B''), Some (Text ''Bob''), Some (Text ''Not Found'')],
             [Some (Text ''A''), Some (Text ''New''), Some (Text ''Not Found'')]]"
    by simp
  from c r have "written = \<lparr>columns = [''resume_id'', ''name'', ''email''],
                 rows = [[Some (Text ''B''), Some (Text ''Bob''), Some (Text ''Not Found'')],
                         [Some (Text ''A''), Some (Text ''New''), Some (Text ''Not Found'')]]\<rparr>"
    by (cases written) simp
  with saved show ?thesis by simp
qed

end
